theory Spec2Isabelle
  imports Main "HOL-Library.AList" "HOL-Library.Char_ord" "HOL-Library.List_Lexorder"
begin

section \<open>The level map: data\<close>

text \<open>
  The repository holds two variants of one program, an overworld map of level nodes:
  \<^verbatim>\<open>src/1.py\<close> (suffix \<open>_v1\<close> below) and \<^verbatim>\<open>src/3dworld5.13.25.py\<close> (suffix \<open>_v2\<close>).
  Both keep three module globals, \<^verbatim>\<open>all_level_nodes\<close>, \<^verbatim>\<open>paths_entities\<close> and
  \<^verbatim>\<open>current_player_node_id\<close>, and mutate them from the functions modelled here. The
  globals become one record that every function takes and returns. Python dictionaries
  keep insertion order, so they are association lists whose keys are kept distinct by
  \<open>AList.update\<close>. Node states are the strings the source compares against.

  A configuration entry is one dictionary of \<^verbatim>\<open>levels_data\<close>. Its position and colour
  only feed the renderer and are left out.
\<close>

record level_data =
  cfg_id :: string
  cfg_name :: string
  cfg_unlocks :: "string list"
  cfg_initial_state :: string

text \<open>
  \<^verbatim>\<open>class LevelNode(Button)\<close>: the fields the game logic reads. Colour, scale, collider,
  tooltip and label are written by the source but never read back by it.
\<close>

record level_node =
  level_id :: string
  level_name :: string
  unlocks :: "string list"
  node_state :: string
  is_current_game_node :: bool

datatype path_color = White | Light_gray | Gray | Dark_gray | Black

text \<open>The line entity of a path: the three attributes \<^verbatim>\<open>update_path_visuals\<close> writes.\<close>

record path_entity =
  color :: path_color
  thickness :: nat
  visible :: bool

text \<open>
  Requests sent to the engine, in the order they are issued: \<^verbatim>\<open>shake\<close> on a node, the
  pop animation of a freshly unlocked node (\<^verbatim>\<open>animate_scale\<close> plus the delayed
  \<^verbatim>\<open>invoke\<close>), and the two on-screen texts. Console \<^verbatim>\<open>print\<close> calls are diagnostics and
  are not recorded.
\<close>

datatype event = Shake string | Pop string | Entering string | Moved string

record world =
  all_level_nodes :: "(string \<times> level_node) list"
  paths_entities :: "((string \<times> string) \<times> path_entity) list"
  current_player_node_id :: "string option"
  events :: "event list"

text \<open>The module globals as both files initialise them.\<close>

definition empty_world :: world where
  "empty_world =
     \<lparr>all_level_nodes = [], paths_entities = [], current_player_node_id = None, events = []\<rparr>"

text \<open>
  Python truthiness of \<^verbatim>\<open>current_player_node_id\<close>: \<^verbatim>\<open>None\<close> and the empty string are
  both false.
\<close>

definition truthy :: "string option \<Rightarrow> bool" where
  "truthy c = (case c of None \<Rightarrow> False | Some s \<Rightarrow> s \<noteq> [])"

section \<open>LevelNode methods (the same in both files)\<close>

definition LevelNode_init :: "level_data \<Rightarrow> level_node" where
  "LevelNode_init level_data =
     \<lparr>level_id = cfg_id level_data, level_name = cfg_name level_data,
      unlocks = cfg_unlocks level_data, node_state = cfg_initial_state level_data,
      is_current_game_node = False\<rparr>"

definition set_state :: "level_node \<Rightarrow> string \<Rightarrow> level_node" where
  "set_state self new_state = self\<lparr>node_state := new_state\<rparr>"

definition update_visual_state :: "level_node \<Rightarrow> bool \<Rightarrow> level_node" where
  "update_visual_state self is_current = self\<lparr>is_current_game_node := is_current\<rparr>"

text \<open>\<^verbatim>\<open>all_level_nodes[k].set_state(s)\<close> for a key that is present.\<close>

definition node_set_state :: "string \<Rightarrow> string \<Rightarrow> world \<Rightarrow> world" where
  "node_set_state k s w =
     w\<lparr>all_level_nodes := AList.map_entry k (\<lambda>n. set_state n s) (all_level_nodes w)\<rparr>"

section \<open>Graph construction\<close>

text \<open>\<^verbatim>\<open>tuple(sorted((node_id, target_id)))\<close>: Python orders strings lexicographically.\<close>

definition path_key :: "string \<Rightarrow> string \<Rightarrow> string \<times> string" where
  "path_key a b = (if a \<le> b then (a, b) else (b, a))"

text \<open>
  A fresh line entity: the mesh is built with \<^verbatim>\<open>thickness=5\<close>; colour and visibility are
  the engine's defaults until the first visual sync overwrites them.
\<close>

definition new_path :: path_entity where
  "new_path = \<lparr>color = White, thickness = 5, visible = True\<rparr>"

text \<open>The inner loop \<^verbatim>\<open>for target_id in node.unlocks\<close> of the path construction.\<close>

fun create_paths_from ::
  "(string \<times> level_node) list \<Rightarrow> string \<Rightarrow> string list \<Rightarrow>
   ((string \<times> string) \<times> path_entity) list \<Rightarrow> ((string \<times> string) \<times> path_entity) list" where
  "create_paths_from nodes node_id [] ps = ps"
| "create_paths_from nodes node_id (target_id # ts) ps =
     create_paths_from nodes node_id ts
       (if map_of nodes target_id \<noteq> None \<and> map_of ps (path_key node_id target_id) = None
        then AList.update (path_key node_id target_id) new_path ps
        else ps)"

text \<open>The outer loop \<^verbatim>\<open>for node_id, node in all_level_nodes.items()\<close>.\<close>

fun create_paths ::
  "(string \<times> level_node) list \<Rightarrow> (string \<times> level_node) list \<Rightarrow>
   ((string \<times> string) \<times> path_entity) list \<Rightarrow> ((string \<times> string) \<times> path_entity) list" where
  "create_paths nodes [] ps = ps"
| "create_paths nodes ((node_id, node) # rest) ps =
     create_paths nodes rest (create_paths_from nodes node_id (unlocks node) ps)"

text \<open>
  The node loop of \<^verbatim>\<open>src/1.py\<close>: the start node is the first entry whose initial state is
  \<^verbatim>\<open>'unlocked'\<close>, tested with \<^verbatim>\<open>current_player_node_id is None\<close>.
\<close>

fun create_nodes_v1 :: "level_data list \<Rightarrow> world \<Rightarrow> world" where
  "create_nodes_v1 [] w = w"
| "create_nodes_v1 (d # ds) w =
     create_nodes_v1 ds
       (w\<lparr>all_level_nodes := AList.update (cfg_id d) (LevelNode_init d) (all_level_nodes w),
          current_player_node_id :=
            (if cfg_initial_state d = ''unlocked'' \<and> current_player_node_id w = None
             then Some (cfg_id d) else current_player_node_id w)\<rparr>)"

text \<open>
  The node loop of \<^verbatim>\<open>src/3dworld5.13.25.py\<close>: the same, with the test written
  \<^verbatim>\<open>not current_player_node_id\<close>.
\<close>

fun create_nodes_v2 :: "level_data list \<Rightarrow> world \<Rightarrow> world" where
  "create_nodes_v2 [] w = w"
| "create_nodes_v2 (d # ds) w =
     create_nodes_v2 ds
       (w\<lparr>all_level_nodes := AList.update (cfg_id d) (LevelNode_init d) (all_level_nodes w),
          current_player_node_id :=
            (if cfg_initial_state d = ''unlocked'' \<and> \<not> truthy (current_player_node_id w)
             then Some (cfg_id d) else current_player_node_id w)\<rparr>)"

section \<open>Visual sync\<close>

text \<open>
  The node loop of \<^verbatim>\<open>update_all_visuals\<close>, the same in both files: every node's flag
  becomes \<^verbatim>\<open>node_id == current_player_node_id\<close>.
\<close>

definition update_node_visuals :: "world \<Rightarrow> world" where
  "update_node_visuals w =
     w\<lparr>all_level_nodes :=
         map_ran (\<lambda>node_id node.
                    update_visual_state node (current_player_node_id w = Some node_id))
           (all_level_nodes w)\<rparr>"

text \<open>The body of the path loop of \<^verbatim>\<open>src/1.py\<close> for one path whose two nodes exist.\<close>

definition path_visual_v1 :: "level_node \<Rightarrow> level_node \<Rightarrow> path_entity \<Rightarrow> path_entity" where
  "path_visual_v1 node1 node2 p =
     (let is_node1_accessible =
            (node_state node1 \<in> set [''unlocked'', ''completed''] \<or> is_current_game_node node1);
          is_node2_accessible =
            (node_state node2 \<in> set [''unlocked'', ''completed''] \<or> is_current_game_node node2);
          path_active = (node_state node1 \<noteq> ''locked'' \<and> node_state node2 \<noteq> ''locked'')
      in if path_active then
           (if is_current_game_node node1 \<or> is_current_game_node node2
            then p\<lparr>color := White, thickness := 8\<rparr>
            else if node_state node1 = ''unlocked'' \<and> node_state node2 = ''unlocked''
            then p\<lparr>color := Light_gray, thickness := 5\<rparr>
            else if node_state node1 = ''completed'' \<and> node_state node2 = ''unlocked'' \<or>
                    node_state node1 = ''unlocked'' \<and> node_state node2 = ''completed'' \<or>
                    node_state node1 = ''completed'' \<and> node_state node2 = ''completed''
            then p\<lparr>color := Gray, thickness := 5\<rparr>
            else p\<lparr>color := Dark_gray, thickness := 3\<rparr>)
           \<lparr>visible := True\<rparr>
         else p\<lparr>color := Black, thickness := 3,
                visible := ((is_node1_accessible \<or> is_node2_accessible) \<and>
                            \<not> (node_state node1 = ''locked'' \<and> node_state node2 = ''locked''))\<rparr>)"

text \<open>
  \<^verbatim>\<open>update_path_visuals\<close> of \<^verbatim>\<open>src/1.py\<close>: a path with a missing endpoint is skipped
  (\<^verbatim>\<open>continue\<close>). Every path entity is built with a mesh, so the \<^verbatim>\<open>model is None\<close> test
  never fires.
\<close>

definition update_path_visuals_v1 :: "world \<Rightarrow> world" where
  "update_path_visuals_v1 w =
     w\<lparr>paths_entities :=
         map_ran (\<lambda>(id1, id2) path_entity.
                    case (map_of (all_level_nodes w) id1, map_of (all_level_nodes w) id2) of
                      (Some node1, Some node2) \<Rightarrow> path_visual_v1 node1 node2 path_entity
                    | _ \<Rightarrow> path_entity)
           (paths_entities w)\<rparr>"

definition update_all_visuals_v1 :: "world \<Rightarrow> world" where
  "update_all_visuals_v1 w = update_path_visuals_v1 (update_node_visuals w)"

text \<open>The body of the path loop of \<^verbatim>\<open>src/3dworld5.13.25.py\<close>.\<close>

definition path_visual_v2 :: "level_node \<Rightarrow> level_node \<Rightarrow> path_entity \<Rightarrow> path_entity" where
  "path_visual_v2 node1 node2 p =
     (let path_active = (node_state node1 \<noteq> ''locked'' \<and> node_state node2 \<noteq> ''locked'')
      in if path_active then
           (if is_current_game_node node1 \<or> is_current_game_node node2
            then p\<lparr>color := White, thickness := 8\<rparr>
            else if node_state node1 = ''unlocked'' \<and> node_state node2 = ''unlocked''
            then p\<lparr>color := Light_gray, thickness := 5\<rparr>
            else p\<lparr>color := Gray, thickness := 5\<rparr>)
           \<lparr>visible := True\<rparr>
         else p\<lparr>color := Black, thickness := 3,
                visible := (node_state node1 \<in> set [''unlocked'', ''completed''] \<or>
                            node_state node2 \<in> set [''unlocked'', ''completed''])\<rparr>)"

text \<open>
  \<^verbatim>\<open>update_path_visuals\<close> of \<^verbatim>\<open>src/3dworld5.13.25.py\<close> subscripts the dictionary, so a
  missing endpoint raises \<^verbatim>\<open>KeyError\<close>. In the functions of this file \<open>None\<close> stands
  for that uncaught exception.
\<close>

fun path_loop_v2 ::
  "(string \<times> level_node) list \<Rightarrow> ((string \<times> string) \<times> path_entity) list \<Rightarrow>
   ((string \<times> string) \<times> path_entity) list option" where
  "path_loop_v2 nodes [] = Some []"
| "path_loop_v2 nodes (((id1, id2), path_entity) # rest) =
     (case map_of nodes id1 of
        None \<Rightarrow> None
      | Some node1 \<Rightarrow>
          (case map_of nodes id2 of
             None \<Rightarrow> None
           | Some node2 \<Rightarrow>
               (case path_loop_v2 nodes rest of
                  None \<Rightarrow> None
                | Some rest' \<Rightarrow>
                    Some (((id1, id2), path_visual_v2 node1 node2 path_entity) # rest'))))"

definition update_path_visuals_v2 :: "world \<Rightarrow> world option" where
  "update_path_visuals_v2 w =
     (case path_loop_v2 (all_level_nodes w) (paths_entities w) of
        None \<Rightarrow> None
      | Some ps \<Rightarrow> Some (w\<lparr>paths_entities := ps\<rparr>))"

definition update_all_visuals_v2 :: "world \<Rightarrow> world option" where
  "update_all_visuals_v2 w = update_path_visuals_v2 (update_node_visuals w)"

section \<open>Initialisation\<close>

text \<open>
  \<^verbatim>\<open>setup_level_nodes_and_paths\<close> of \<^verbatim>\<open>src/1.py\<close>. The fallback sets the pointer to the
  first entry's id and unlocks that node only when the id is truthy and present.
\<close>

definition setup_level_nodes_and_paths_v1 :: "level_data list \<Rightarrow> world \<Rightarrow> world" where
  "setup_level_nodes_and_paths_v1 levels_data w0 =
     (let w1 = create_nodes_v1 levels_data w0;
          w2 = w1\<lparr>paths_entities :=
                    create_paths (all_level_nodes w1) (all_level_nodes w1) (paths_entities w1)\<rparr>;
          w3 = (case levels_data of
                  [] \<Rightarrow> w2
                | d0 # _ \<Rightarrow>
                    if current_player_node_id w2 = None then
                      (let w' = w2\<lparr>current_player_node_id := Some (cfg_id d0)\<rparr>
                       in if cfg_id d0 \<noteq> [] \<and> map_of (all_level_nodes w') (cfg_id d0) \<noteq> None
                          then node_set_state (cfg_id d0) ''unlocked'' w'
                          else w')
                    else w2)
      in update_all_visuals_v1 w3)"

text \<open>
  \<^verbatim>\<open>setup_level_nodes_and_paths\<close> of \<^verbatim>\<open>src/3dworld5.13.25.py\<close>. The fallback test is
  \<^verbatim>\<open>not current_player_node_id\<close> and the node is subscripted without a membership test.
\<close>

definition setup_level_nodes_and_paths_v2 :: "level_data list \<Rightarrow> world \<Rightarrow> world option" where
  "setup_level_nodes_and_paths_v2 levels_data w0 =
     (let w1 = create_nodes_v2 levels_data w0;
          w2 = w1\<lparr>paths_entities :=
                    create_paths (all_level_nodes w1) (all_level_nodes w1) (paths_entities w1)\<rparr>;
          w3 = (case levels_data of
                  [] \<Rightarrow> Some w2
                | d0 # _ \<Rightarrow>
                    if \<not> truthy (current_player_node_id w2) then
                      (let w' = w2\<lparr>current_player_node_id := Some (cfg_id d0)\<rparr>
                       in case map_of (all_level_nodes w') (cfg_id d0) of
                            None \<Rightarrow> None
                          | Some _ \<Rightarrow> Some (node_set_state (cfg_id d0) ''unlocked'' w'))
                    else Some w2)
      in case w3 of None \<Rightarrow> None | Some w \<Rightarrow> update_all_visuals_v2 w)"

section \<open>Moving\<close>

text \<open>
  The unlock loop of \<^verbatim>\<open>set_current_player_node\<close>, the same in both files: each listed
  node that exists and is locked becomes unlocked and gets its pop animation.
\<close>

fun unlock_targets :: "string list \<Rightarrow> world \<Rightarrow> world" where
  "unlock_targets [] w = w"
| "unlock_targets (unlock_target_id # ts) w =
     unlock_targets ts
       (case map_of (all_level_nodes w) unlock_target_id of
          None \<Rightarrow> w
        | Some node_to_unlock \<Rightarrow>
            if node_state node_to_unlock = ''locked''
            then (node_set_state unlock_target_id ''unlocked'' w)
                   \<lparr>events := events w @ [Pop unlock_target_id]\<rparr>
            else w)"

text \<open>\<^verbatim>\<open>set_current_player_node\<close> of \<^verbatim>\<open>src/1.py\<close>: every lookup is guarded.\<close>

definition set_current_player_node_v1 :: "string \<Rightarrow> world \<Rightarrow> world" where
  "set_current_player_node_v1 target_node_id w =
     (let w1 = (case current_player_node_id w of
                  None \<Rightarrow> w
                | Some cur \<Rightarrow>
                    if cur \<noteq> [] then
                      (case map_of (all_level_nodes w) cur of
                         None \<Rightarrow> w
                       | Some prev_node \<Rightarrow>
                           if node_state prev_node = ''unlocked''
                           then node_set_state cur ''completed'' w else w)
                    else w);
          w2 = w1\<lparr>current_player_node_id := Some target_node_id\<rparr>;
          w3 = (case map_of (all_level_nodes w2) target_node_id of
                  None \<Rightarrow> w2
                | Some current_node \<Rightarrow>
                    unlock_targets (unlocks current_node)
                      (if node_state current_node = ''locked''
                       then node_set_state target_node_id ''unlocked'' w2 else w2))
      in update_all_visuals_v1 w3)"

text \<open>
  \<^verbatim>\<open>set_current_player_node\<close> of \<^verbatim>\<open>src/3dworld5.13.25.py\<close>: the previous and the target
  node are subscripted, so a missing key raises.
\<close>

definition set_current_player_node_v2 :: "string \<Rightarrow> world \<Rightarrow> world option" where
  "set_current_player_node_v2 target_node_id w =
     (let w1 = (case current_player_node_id w of
                  None \<Rightarrow> Some w
                | Some cur \<Rightarrow>
                    if cur \<noteq> [] then
                      (case map_of (all_level_nodes w) cur of
                         None \<Rightarrow> None
                       | Some prev_node \<Rightarrow>
                           if node_state prev_node = ''unlocked''
                           then Some (node_set_state cur ''completed'' w) else Some w)
                    else Some w)
      in case w1 of
           None \<Rightarrow> None
         | Some w1 \<Rightarrow>
             (let w2 = w1\<lparr>current_player_node_id := Some target_node_id\<rparr>
              in case map_of (all_level_nodes w2) target_node_id of
                   None \<Rightarrow> None
                 | Some current_node \<Rightarrow>
                     update_all_visuals_v2
                       (unlock_targets (unlocks current_node)
                          (if node_state current_node = ''locked''
                           then node_set_state target_node_id ''unlocked'' w2 else w2))))"

section \<open>Click handling\<close>

text \<open>
  The \<^verbatim>\<open>can_move\<close> computation of \<^verbatim>\<open>handle_node_click\<close> in \<^verbatim>\<open>src/1.py\<close>. The clicked
  node is the object the engine hands over; the theorems assume it is the one stored
  under its id.
\<close>

definition can_move_v1 :: "level_node \<Rightarrow> world \<Rightarrow> bool" where
  "can_move_v1 clicked_node w =
     (case current_player_node_id w of
        None \<Rightarrow> False
      | Some cur \<Rightarrow>
          if cur \<noteq> [] then
            (case map_of (all_level_nodes w) cur of
               None \<Rightarrow> False
             | Some player_node \<Rightarrow>
                 if level_id clicked_node \<in> set (unlocks player_node) \<and>
                    node_state clicked_node = ''unlocked''
                 then True
                 else if node_state clicked_node = ''unlocked'' \<or>
                         node_state clicked_node = ''completed''
                 then True
                 else False)
          else False)"

text \<open>
  \<^verbatim>\<open>handle_node_click\<close> of \<^verbatim>\<open>src/1.py\<close>. Its \<^verbatim>\<open>isinstance\<close> test holds by typing. The
  four outcomes are, in the order of the source: shake on a locked node, the
  entering-level text on the current node, shake from the final rejection, and the move.
\<close>

definition handle_node_click_v1 :: "level_node \<Rightarrow> world \<Rightarrow> world" where
  "handle_node_click_v1 clicked_node w =
     (if node_state clicked_node = ''locked''
      then w\<lparr>events := events w @ [Shake (level_id clicked_node)]\<rparr>
      else if Some (level_id clicked_node) = current_player_node_id w
      then w\<lparr>events := events w @ [Entering (level_name clicked_node)]\<rparr>
      else if \<not> can_move_v1 clicked_node w \<and> node_state clicked_node \<noteq> ''unlocked'' \<and>
              node_state clicked_node \<noteq> ''completed''
      then w\<lparr>events := events w @ [Shake (level_id clicked_node)]\<rparr>
      else (let w' = set_current_player_node_v1 (level_id clicked_node) w
            in w'\<lparr>events := events w' @ [Moved (level_name clicked_node)]\<rparr>))"

text \<open>\<^verbatim>\<open>get_adjacent_nodes\<close> of \<^verbatim>\<open>src/3dworld5.13.25.py\<close>, over the path keys.\<close>

fun get_adjacent_nodes :: "string option \<Rightarrow> (string \<times> string) list \<Rightarrow> string list" where
  "get_adjacent_nodes node_id [] = []"
| "get_adjacent_nodes node_id ((id1, id2) # ks) =
     (if Some id1 = node_id then id2 # get_adjacent_nodes node_id ks
      else if Some id2 = node_id then id1 # get_adjacent_nodes node_id ks
      else get_adjacent_nodes node_id ks)"

text \<open>
  \<^verbatim>\<open>handle_node_click\<close> of \<^verbatim>\<open>src/3dworld5.13.25.py\<close>: a move needs the clicked node
  to be adjacent to the current one by a path.
\<close>

definition handle_node_click_v2 :: "level_node \<Rightarrow> world \<Rightarrow> world option" where
  "handle_node_click_v2 clicked_node w =
     (if node_state clicked_node = ''locked''
      then Some (w\<lparr>events := events w @ [Shake (level_id clicked_node)]\<rparr>)
      else if Some (level_id clicked_node) = current_player_node_id w
      then Some (w\<lparr>events := events w @ [Entering (level_name clicked_node)]\<rparr>)
      else
        (let adjacent_nodes =
               get_adjacent_nodes (current_player_node_id w) (map fst (paths_entities w))
         in if level_id clicked_node \<in> set adjacent_nodes \<and>
               node_state clicked_node \<in> set [''unlocked'', ''completed'']
            then (case set_current_player_node_v2 (level_id clicked_node) w of
                    None \<Rightarrow> None
                  | Some w' \<Rightarrow>
                      Some (w'\<lparr>events := events w' @ [Moved (level_name clicked_node)]\<rparr>))
            else Some (w\<lparr>events := events w @ [Shake (level_id clicked_node)]\<rparr>)))"

text \<open>
  \<^verbatim>\<open>LevelNode.on_click\<close>: the engine calls the handler with the node object that was
  clicked, here the one stored under the id. An id with no node is no click at all.
  Ids are unique in a configuration; with a repeated id the dictionary keeps the last
  node built for it, and the node objects it drops are outside this model.
\<close>

definition on_click_v1 :: "string \<Rightarrow> world \<Rightarrow> world" where
  "on_click_v1 k w =
     (case map_of (all_level_nodes w) k of
        None \<Rightarrow> w
      | Some self \<Rightarrow> handle_node_click_v1 self w)"

definition on_click_v2 :: "string \<Rightarrow> world \<Rightarrow> world option" where
  "on_click_v2 k w =
     (case map_of (all_level_nodes w) k of
        None \<Rightarrow> Some w
      | Some self \<Rightarrow> handle_node_click_v2 self w)"

text \<open>A sequence of clicks, one after the other; an exception ends the run.\<close>

fun clicks_v1 :: "string list \<Rightarrow> world \<Rightarrow> world" where
  "clicks_v1 [] w = w"
| "clicks_v1 (k # ks) w = clicks_v1 ks (on_click_v1 k w)"

fun clicks_v2 :: "string list \<Rightarrow> world \<Rightarrow> world option" where
  "clicks_v2 [] w = Some w"
| "clicks_v2 (k # ks) w =
     (case on_click_v2 k w of None \<Rightarrow> None | Some w' \<Rightarrow> clicks_v2 ks w')"

section \<open>Auxiliary definitions for the proofs\<close>

text \<open>
  \<^verbatim>\<open>all_level_nodes.get(k)\<close>, and the state of the node stored under a key.
\<close>

abbreviation node_at :: "world \<Rightarrow> string \<Rightarrow> level_node option" where
  "node_at w k \<equiv> map_of (all_level_nodes w) k"

definition state_at :: "world \<Rightarrow> string \<Rightarrow> string option" where
  "state_at w k = map_option node_state (node_at w k)"

definition state_after :: "world option \<Rightarrow> string \<Rightarrow> string option" where
  "state_after r k = (case r of None \<Rightarrow> None | Some w \<Rightarrow> state_at w k)"

text \<open>
  The two phases of \<^verbatim>\<open>set_current_player_node\<close> around the pointer assignment, named
  so that each can be characterised on its own: completing the node that is left, and
  unlocking on arrival.
\<close>

definition vacate :: "world \<Rightarrow> world" where
  "vacate w =
     (case current_player_node_id w of
        None \<Rightarrow> w
      | Some cur \<Rightarrow>
          if cur \<noteq> [] then
            (case map_of (all_level_nodes w) cur of
               None \<Rightarrow> w
             | Some prev_node \<Rightarrow>
                 if node_state prev_node = ''unlocked''
                 then node_set_state cur ''completed'' w else w)
          else w)"

definition arrive :: "string \<Rightarrow> world \<Rightarrow> world" where
  "arrive x w =
     (case map_of (all_level_nodes w) x of
        None \<Rightarrow> w
      | Some current_node \<Rightarrow>
          unlock_targets (unlocks current_node)
            (if node_state current_node = ''locked''
             then node_set_state x ''unlocked'' w else w))"

text \<open>
  The state that a node stored under \<open>k\<close> with state \<open>s\<close> has after a move to \<open>x\<close>.
\<close>

definition moved_state :: "world \<Rightarrow> string \<Rightarrow> string \<Rightarrow> string \<Rightarrow> string" where
  "moved_state w x k s =
     (let s1 = (if current_player_node_id w = Some k \<and> k \<noteq> [] \<and> s = ''unlocked''
                then ''completed'' else s)
      in case node_at w x of
           None \<Rightarrow> s1
         | Some xn \<Rightarrow> if (k = x \<or> k \<in> set (unlocks xn)) \<and> s1 = ''locked'' then ''unlocked'' else s1)"

text \<open>
  The paths as \<^verbatim>\<open>update_path_visuals\<close> of \<^verbatim>\<open>src/3dworld5.13.25.py\<close> leaves them
  when no lookup fails.
\<close>

definition path_sync_v2 :: "world \<Rightarrow> ((string \<times> string) \<times> path_entity) list" where
  "path_sync_v2 w =
     map_ran (\<lambda>(id1, id2) path_entity.
                path_visual_v2 (the (node_at w id1)) (the (node_at w id2)) path_entity)
       (paths_entities w)"

text \<open>
  Well-formed worlds: the keys are distinct, every node is stored under its own id,
  every path joins two existing nodes, and the pointer, when set, names a node. The
  node part and the path part are also named separately.
\<close>

definition paths_closed :: "world \<Rightarrow> bool" where
  "paths_closed w \<longleftrightarrow>
     (\<forall>((a, b), p) \<in> set (paths_entities w). node_at w a \<noteq> None \<and> node_at w b \<noteq> None)"

definition keys_closed :: "(string \<times> level_node) list \<Rightarrow> ((string \<times> string) \<times> path_entity) list \<Rightarrow> bool" where
  "keys_closed nodes ps \<longleftrightarrow>
     (\<forall>ab \<in> set (map fst ps). fst ab \<in> set (map fst nodes) \<and> snd ab \<in> set (map fst nodes))"

definition nodes_ok :: "world \<Rightarrow> bool" where
  "nodes_ok w \<longleftrightarrow>
     distinct (map fst (all_level_nodes w)) \<and>
     (\<forall>(k, n) \<in> set (all_level_nodes w). level_id n = k) \<and>
     (case current_player_node_id w of None \<Rightarrow> True | Some c \<Rightarrow> node_at w c \<noteq> None)"

definition wf_world :: "world \<Rightarrow> bool" where
  "wf_world w \<longleftrightarrow>
     distinct (map fst (all_level_nodes w)) \<and>
     (\<forall>(k, n) \<in> set (all_level_nodes w). level_id n = k) \<and>
     paths_closed w \<and>
     (case current_player_node_id w of None \<Rightarrow> True | Some c \<Rightarrow> node_at w c \<noteq> None)"

text \<open>
  The flags agree with the pointer; the ids of the nodes whose flag is set; and the
  worlds that are well formed, in sync and have a pointer.
\<close>

definition synced :: "world \<Rightarrow> bool" where
  "synced w \<longleftrightarrow>
     (\<forall>(k, n) \<in> set (all_level_nodes w).
        is_current_game_node n = (current_player_node_id w = Some k))"

definition current_nodes :: "world \<Rightarrow> string list" where
  "current_nodes w = map fst (filter (\<lambda>(k, n). is_current_game_node n) (all_level_nodes w))"

definition good :: "world \<Rightarrow> bool" where
  "good w \<longleftrightarrow> wf_world w \<and> synced w \<and> current_player_node_id w \<noteq> None"

text \<open>
  Order on node states. \<open>advances\<close> allows a state to stay or to move forward along
  locked, unlocked, completed; \<open>regresses\<close> lists the three backward transitions.
\<close>

definition advances :: "string \<Rightarrow> string \<Rightarrow> bool" where
  "advances s s' \<longleftrightarrow>
     s' = s \<or> (s = ''locked'' \<and> s' = ''unlocked'') \<or> (s = ''unlocked'' \<and> s' = ''completed'') \<or>
     (s = ''locked'' \<and> s' = ''completed'')"

definition regresses :: "string \<Rightarrow> string \<Rightarrow> bool" where
  "regresses s s' \<longleftrightarrow>
     (s = ''completed'' \<and> s' = ''unlocked'') \<or> (s = ''completed'' \<and> s' = ''locked'') \<or>
     (s = ''unlocked'' \<and> s' = ''locked'')"

definition le_states :: "world \<Rightarrow> world \<Rightarrow> bool" where
  "le_states w w' \<longleftrightarrow>
     (\<forall>k s. state_at w k = Some s \<longrightarrow> (\<exists>s'. state_at w' k = Some s' \<and> advances s s'))"

text \<open>
  The three state strings the source knows, configurations that use only those, and
  worlds whose nodes all carry one of them.
\<close>

definition valid_state :: "string \<Rightarrow> bool" where
  "valid_state s \<longleftrightarrow> s \<in> set [''locked'', ''unlocked'', ''completed'']"

definition valid_config :: "level_data list \<Rightarrow> bool" where
  "valid_config cfg \<longleftrightarrow> (\<forall>d \<in> set cfg. valid_state (cfg_initial_state d))"

definition states_valid :: "world \<Rightarrow> bool" where
  "states_valid w \<longleftrightarrow> (\<forall>k s. state_at w k = Some s \<longrightarrow> valid_state s)"


text \<open>
  Small configurations used as concrete inputs: the chain A, B, C of the spec's
  scenario; two unlocked nodes that no path joins; a chain whose first two nodes are
  unlocked, with a fourth node off the chain; and a single locked node without edges.
\<close>

definition scenario_abc :: "level_data list" where
  "scenario_abc =
     [\<lparr>cfg_id = ''A'', cfg_name = ''Level A'', cfg_unlocks = [''B''], cfg_initial_state = ''unlocked''\<rparr>,
      \<lparr>cfg_id = ''B'', cfg_name = ''Level B'', cfg_unlocks = [''C''], cfg_initial_state = ''locked''\<rparr>,
      \<lparr>cfg_id = ''C'', cfg_name = ''Level C'', cfg_unlocks = [], cfg_initial_state = ''locked''\<rparr>]"

definition abc_world :: world where
  "abc_world = setup_level_nodes_and_paths_v1 scenario_abc empty_world"

definition abc_node_B :: level_node where
  "abc_node_B = \<lparr>level_id = ''B'', level_name = ''Level B'', unlocks = [''C''],
                  node_state = ''locked'', is_current_game_node = False\<rparr>"

definition two_islands :: "level_data list" where
  "two_islands =
     [\<lparr>cfg_id = ''A'', cfg_name = ''Level A'', cfg_unlocks = [], cfg_initial_state = ''unlocked''\<rparr>,
      \<lparr>cfg_id = ''B'', cfg_name = ''Level B'', cfg_unlocks = [], cfg_initial_state = ''unlocked''\<rparr>]"

definition islands_world :: world where
  "islands_world = setup_level_nodes_and_paths_v1 two_islands empty_world"

definition islands_node_B :: level_node where
  "islands_node_B = \<lparr>level_id = ''B'', level_name = ''Level B'', unlocks = [],
                      node_state = ''unlocked'', is_current_game_node = False\<rparr>"

definition scenario_fork :: "level_data list" where
  "scenario_fork =
     [\<lparr>cfg_id = ''A'', cfg_name = ''Level A'', cfg_unlocks = [''B''], cfg_initial_state = ''unlocked''\<rparr>,
      \<lparr>cfg_id = ''B'', cfg_name = ''Level B'', cfg_unlocks = [''C''], cfg_initial_state = ''unlocked''\<rparr>,
      \<lparr>cfg_id = ''C'', cfg_name = ''Level C'', cfg_unlocks = [], cfg_initial_state = ''locked''\<rparr>,
      \<lparr>cfg_id = ''D'', cfg_name = ''Level D'', cfg_unlocks = [], cfg_initial_state = ''locked''\<rparr>]"

definition fork_world :: world where
  "fork_world = setup_level_nodes_and_paths_v1 scenario_fork empty_world"

definition fork_node_A :: level_node where
  "fork_node_A = \<lparr>level_id = ''A'', level_name = ''Level A'', unlocks = [''B''],
                   node_state = ''unlocked'', is_current_game_node = True\<rparr>"


definition all_locked :: "level_data list" where
  "all_locked =
     [\<lparr>cfg_id = ''A'', cfg_name = ''Level A'', cfg_unlocks = [], cfg_initial_state = ''locked''\<rparr>]"

text \<open>
  The list \<^verbatim>\<open>levels_data\<close> that both files define, six nodes with the first one unlocked,
  and the world \<^verbatim>\<open>src/1.py\<close> builds from it.
\<close>

definition levels_data :: "level_data list" where
  "levels_data =
     [\<lparr>cfg_id = ''1-1'', cfg_name = ''World 1-1'', cfg_unlocks = [''1-2''],
       cfg_initial_state = ''unlocked''\<rparr>,
      \<lparr>cfg_id = ''1-2'', cfg_name = ''World 1-2'', cfg_unlocks = [''1-A'', ''1-3''],
       cfg_initial_state = ''locked''\<rparr>,
      \<lparr>cfg_id = ''1-A'', cfg_name = ''World 1-A (Bonus)'', cfg_unlocks = [],
       cfg_initial_state = ''locked''\<rparr>,
      \<lparr>cfg_id = ''1-3'', cfg_name = ''World 1-3'', cfg_unlocks = [''1-Castle''],
       cfg_initial_state = ''locked''\<rparr>,
      \<lparr>cfg_id = ''1-Castle'', cfg_name = ''World 1-Castle'', cfg_unlocks = [''2-1''],
       cfg_initial_state = ''locked''\<rparr>,
      \<lparr>cfg_id = ''2-1'', cfg_name = ''World 2-1'', cfg_unlocks = [],
       cfg_initial_state = ''locked''\<rparr>]"

definition shipped_world :: world where
  "shipped_world = setup_level_nodes_and_paths_v1 levels_data empty_world"

section \<open>Basic facts about the operations\<close>

lemma map_fst_map_entry: "map fst (AList.map_entry k f xs) = map fst xs"
  by (induction xs) auto

lemma node_at_node_set_state:
  "node_at (node_set_state k s w) k' =
     (if k' = k then map_option (\<lambda>n. set_state n s) (node_at w k) else node_at w k')"
  by (simp add: node_set_state_def map_of_map_entry split: option.splits)

lemma node_set_state_fields:
  "paths_entities (node_set_state k s w) = paths_entities w"
  "current_player_node_id (node_set_state k s w) = current_player_node_id w"
  "events (node_set_state k s w) = events w"
  "map fst (all_level_nodes (node_set_state k s w)) = map fst (all_level_nodes w)"
  by (simp_all add: node_set_state_def map_fst_map_entry)

lemma node_at_update_node_visuals:
  "node_at (update_node_visuals w) k =
     map_option (\<lambda>n. update_visual_state n (current_player_node_id w = Some k)) (node_at w k)"
  by (simp add: update_node_visuals_def map_ran_conv)

lemma update_node_visuals_fields:
  "paths_entities (update_node_visuals w) = paths_entities w"
  "current_player_node_id (update_node_visuals w) = current_player_node_id w"
  "events (update_node_visuals w) = events w"
  "map fst (all_level_nodes (update_node_visuals w)) = map fst (all_level_nodes w)"
  by (simp_all add: update_node_visuals_def)

lemma update_path_visuals_v1_fields:
  "all_level_nodes (update_path_visuals_v1 w) = all_level_nodes w"
  "current_player_node_id (update_path_visuals_v1 w) = current_player_node_id w"
  "events (update_path_visuals_v1 w) = events w"
  "map fst (paths_entities (update_path_visuals_v1 w)) = map fst (paths_entities w)"
  by (simp_all add: update_path_visuals_v1_def)

lemma unlock_targets_fields:
  "paths_entities (unlock_targets ts w) = paths_entities w"
  "current_player_node_id (unlock_targets ts w) = current_player_node_id w"
  "map fst (all_level_nodes (unlock_targets ts w)) = map fst (all_level_nodes w)"
  by (induction ts arbitrary: w) (simp_all add: node_set_state_fields split: option.splits)

lemma node_at_unlock_targets:
  "node_at (unlock_targets ts w) k =
     map_option (\<lambda>n. if k \<in> set ts \<and> node_state n = ''locked'' then set_state n ''unlocked'' else n)
       (node_at w k)"
proof (induction ts arbitrary: w)
  case Nil
  show ?case by (simp add: option.map_ident)
next
  case (Cons t ts)
  show ?case
    by (cases "node_at w k"; cases "node_at w t")
       (auto simp: Cons.IH node_at_node_set_state set_state_def)
qed

lemma update_all_visuals_v1_fields:
  "current_player_node_id (update_all_visuals_v1 w) = current_player_node_id w"
  "events (update_all_visuals_v1 w) = events w"
  "map fst (all_level_nodes (update_all_visuals_v1 w)) = map fst (all_level_nodes w)"
  "map fst (paths_entities (update_all_visuals_v1 w)) = map fst (paths_entities w)"
  by (simp_all add: update_all_visuals_v1_def update_path_visuals_v1_fields update_node_visuals_fields)

lemma node_at_update_all_visuals_v1:
  "node_at (update_all_visuals_v1 w) k =
     map_option (\<lambda>n. update_visual_state n (current_player_node_id w = Some k)) (node_at w k)"
  by (simp add: update_all_visuals_v1_def update_path_visuals_v1_fields node_at_update_node_visuals)

lemma scp_v1_phases:
  "set_current_player_node_v1 x w =
     update_all_visuals_v1 (arrive x ((vacate w)\<lparr>current_player_node_id := Some x\<rparr>))"
  by (simp add: set_current_player_node_v1_def vacate_def arrive_def Let_def)

lemma node_at_vacate:
  "node_at (vacate w) k =
     map_option (\<lambda>n. if current_player_node_id w = Some k \<and> k \<noteq> [] \<and> node_state n = ''unlocked''
                      then set_state n ''completed'' else n) (node_at w k)"
  by (cases "node_at w k")
     (auto simp: vacate_def node_at_node_set_state split: option.splits)

lemma vacate_fields:
  "paths_entities (vacate w) = paths_entities w"
  "current_player_node_id (vacate w) = current_player_node_id w"
  "events (vacate w) = events w"
  "map fst (all_level_nodes (vacate w)) = map fst (all_level_nodes w)"
  by (simp_all add: vacate_def node_set_state_fields split: option.splits)

lemma node_at_arrive:
  "node_at (arrive x w) k =
     (case node_at w x of
        None \<Rightarrow> node_at w k
      | Some xn \<Rightarrow>
          map_option (\<lambda>n. if (k = x \<or> k \<in> set (unlocks xn)) \<and> node_state n = ''locked''
                           then set_state n ''unlocked'' else n) (node_at w k))"
  by (cases "node_at w k"; cases "node_at w x")
     (auto simp: arrive_def node_at_unlock_targets node_at_node_set_state set_state_def)

lemma arrive_fields:
  "paths_entities (arrive x w) = paths_entities w"
  "current_player_node_id (arrive x w) = current_player_node_id w"
  "map fst (all_level_nodes (arrive x w)) = map fst (all_level_nodes w)"
  by (simp_all add: arrive_def unlock_targets_fields node_set_state_fields split: option.splits)

lemma node_at_set_current_player_node_v1:
  "node_at (set_current_player_node_v1 x w) k =
     map_option (\<lambda>n. n\<lparr>node_state := moved_state w x k (node_state n),
                        is_current_game_node := (x = k)\<rparr>) (node_at w k)"
proof (cases "node_at w k")
  case None
  then show ?thesis
    by (simp add: scp_v1_phases node_at_update_all_visuals_v1 node_at_arrive node_at_vacate
          split: option.splits)
next
  case (Some n)
  show ?thesis
  proof (cases "node_at w x")
    case None
    then show ?thesis using Some
      by (simp add: scp_v1_phases node_at_update_all_visuals_v1 node_at_arrive node_at_vacate
            arrive_fields vacate_fields moved_state_def set_state_def update_visual_state_def)
  next
    case (Some xn)
    then show ?thesis using \<open>node_at w k = Some n\<close>
      by (simp add: scp_v1_phases node_at_update_all_visuals_v1 node_at_arrive node_at_vacate
            arrive_fields vacate_fields moved_state_def set_state_def update_visual_state_def)
  qed
qed

lemma set_current_player_node_v1_fields:
  "current_player_node_id (set_current_player_node_v1 x w) = Some x"
  "map fst (all_level_nodes (set_current_player_node_v1 x w)) = map fst (all_level_nodes w)"
  "map fst (paths_entities (set_current_player_node_v1 x w)) = map fst (paths_entities w)"
  by (simp_all add: scp_v1_phases update_all_visuals_v1_fields arrive_fields vacate_fields)

lemma node_at_None_iff: "node_at w k = None \<longleftrightarrow> k \<notin> set (map fst (all_level_nodes w))"
  by (simp add: map_of_eq_None_iff)

lemma wf_level_id: "wf_world w \<Longrightarrow> node_at w k = Some n \<Longrightarrow> level_id n = k"
  by (auto simp: wf_world_def dest: map_of_SomeD)

lemma wf_worldI:
  assumes "distinct (map fst (all_level_nodes w))"
    and "\<And>k n. node_at w k = Some n \<Longrightarrow> level_id n = k"
    and "paths_closed w"
    and "\<And>c. current_player_node_id w = Some c \<Longrightarrow> node_at w c \<noteq> None"
  shows "wf_world w"
  using assms by (auto simp: wf_world_def split: option.splits)

lemma paths_closed_alt:
  "paths_closed w \<longleftrightarrow>
     (\<forall>ab \<in> set (map fst (paths_entities w)).
        fst ab \<in> set (map fst (all_level_nodes w)) \<and> snd ab \<in> set (map fst (all_level_nodes w)))"
  unfolding paths_closed_def node_at_None_iff by (simp add: case_prod_unfold)

lemma paths_closed_keys:
  assumes "paths_closed w"
    and "map fst (all_level_nodes w') = map fst (all_level_nodes w)"
    and "map fst (paths_entities w') = map fst (paths_entities w)"
  shows "paths_closed w'"
  using assms(1) unfolding paths_closed_alt assms(2) assms(3) .

lemma wf_events [simp]: "wf_world (w\<lparr>events := e\<rparr>) = wf_world w"
  by (simp add: wf_world_def paths_closed_def split: option.splits)

lemma wf_set_current_player_node_v1:
  assumes "wf_world w" and "node_at w x \<noteq> None"
  shows "wf_world (set_current_player_node_v1 x w)"
proof (rule wf_worldI)
  show "distinct (map fst (all_level_nodes (set_current_player_node_v1 x w)))"
    using assms(1) by (simp add: set_current_player_node_v1_fields wf_world_def)
  show "paths_closed (set_current_player_node_v1 x w)"
    by (rule paths_closed_keys[of w])
       (use assms(1) in \<open>simp_all add: wf_world_def set_current_player_node_v1_fields\<close>)
  show "level_id n = k" if "node_at (set_current_player_node_v1 x w) k = Some n" for k n
    using that wf_level_id[OF assms(1), of k]
    by (auto simp: node_at_set_current_player_node_v1)
  show "node_at (set_current_player_node_v1 x w) c \<noteq> None"
    if "current_player_node_id (set_current_player_node_v1 x w) = Some c" for c
    using that assms(2)
    by (simp add: set_current_player_node_v1_fields node_at_set_current_player_node_v1)
qed

lemma wf_handle_node_click_v1:
  assumes "wf_world w" and "node_at w k = Some n"
  shows "wf_world (handle_node_click_v1 n w)"
proof -
  have "level_id n = k" using assms by (rule wf_level_id)
  then have "node_at w (level_id n) \<noteq> None" using assms(2) by simp
  then show ?thesis
    using assms(1) by (simp add: handle_node_click_v1_def Let_def wf_set_current_player_node_v1)
qed

lemma wf_on_click_v1: "wf_world w \<Longrightarrow> wf_world (on_click_v1 k w)"
  by (simp add: on_click_v1_def wf_handle_node_click_v1 split: option.splits)

lemma wf_clicks_v1: "wf_world w \<Longrightarrow> wf_world (clicks_v1 ks w)"
  by (induction ks arbitrary: w) (simp_all add: wf_on_click_v1)

lemma clicks_v1_locked:
  assumes "node_at w k = Some n" and "node_state n = ''locked''"
  shows "clicks_v1 (replicate m k) w = w\<lparr>events := events w @ replicate m (Shake (level_id n))\<rparr>"
  using assms
proof (induction m arbitrary: w)
  case 0
  show ?case by simp
next
  case (Suc m)
  let ?w = "w\<lparr>events := events w @ [Shake (level_id n)]\<rparr>"
  have step: "on_click_v1 k w = ?w"
    using Suc.prems by (simp add: on_click_v1_def handle_node_click_v1_def)
  have "node_at ?w k = Some n" using Suc.prems by simp
  from Suc.IH[OF this Suc.prems(2)] show ?case
    by (simp add: step replicate_append_same)
qed

lemma clicks_v2_locked:
  assumes "node_at w k = Some n" and "node_state n = ''locked''"
  shows "clicks_v2 (replicate m k) w =
           Some (w\<lparr>events := events w @ replicate m (Shake (level_id n))\<rparr>)"
  using assms
proof (induction m arbitrary: w)
  case 0
  show ?case by simp
next
  case (Suc m)
  let ?w = "w\<lparr>events := events w @ [Shake (level_id n)]\<rparr>"
  have step: "on_click_v2 k w = Some ?w"
    using Suc.prems by (simp add: on_click_v2_def handle_node_click_v2_def)
  have "node_at ?w k = Some n" using Suc.prems by simp
  from Suc.IH[OF this Suc.prems(2)] show ?case
    by (simp add: step replicate_append_same)
qed

lemma set_map_ran: "set (map_ran f al) = (\<lambda>(k, v). (k, f k v)) ` set al"
  by (induction al) auto

lemma path_loop_v2_Some:
  assumes "\<forall>((a, b), p) \<in> set ps. map_of nodes a \<noteq> None \<and> map_of nodes b \<noteq> None"
  shows "path_loop_v2 nodes ps =
           Some (map_ran (\<lambda>(id1, id2) path_entity.
                   path_visual_v2 (the (map_of nodes id1)) (the (map_of nodes id2)) path_entity) ps)"
  using assms by (induction nodes ps rule: path_loop_v2.induct) auto

lemma update_path_visuals_v2_Some:
  "paths_closed w \<Longrightarrow> update_path_visuals_v2 w = Some (w\<lparr>paths_entities := path_sync_v2 w\<rparr>)"
  by (simp add: update_path_visuals_v2_def path_sync_v2_def paths_closed_def path_loop_v2_Some)

lemma paths_closed_update_node_visuals:
  "paths_closed w \<Longrightarrow> paths_closed (update_node_visuals w)"
  by (rule paths_closed_keys[of w]) (simp_all add: update_node_visuals_fields)

lemma update_all_visuals_v2_Some:
  "paths_closed w \<Longrightarrow>
   update_all_visuals_v2 w =
     Some ((update_all_visuals_v1 w)\<lparr>paths_entities := path_sync_v2 (update_node_visuals w)\<rparr>)"
  by (simp add: update_all_visuals_v2_def update_all_visuals_v1_def update_path_visuals_v1_def
        update_path_visuals_v2_Some paths_closed_update_node_visuals)

lemma map_fst_path_sync_v2: "map fst (path_sync_v2 w) = map fst (paths_entities w)"
  by (simp add: path_sync_v2_def)

lemma scp_v2_eq:
  assumes "wf_world w" and "node_at w x \<noteq> None"
  shows "\<exists>ps. set_current_player_node_v2 x w =
                 Some ((set_current_player_node_v1 x w)\<lparr>paths_entities := ps\<rparr>) \<and>
              map fst ps = map fst (paths_entities w)"
proof -
  let ?w3 = "arrive x ((vacate w)\<lparr>current_player_node_id := Some x\<rparr>)"
  have cur: "\<And>c. current_player_node_id w = Some c \<Longrightarrow> node_at w c \<noteq> None"
    using assms(1) by (auto simp: wf_world_def)
  have w1: "(case current_player_node_id w of
               None \<Rightarrow> Some w
             | Some cur \<Rightarrow>
                 if cur \<noteq> [] then
                   (case map_of (all_level_nodes w) cur of
                      None \<Rightarrow> None
                    | Some prev_node \<Rightarrow>
                        if node_state prev_node = ''unlocked''
                        then Some (node_set_state cur ''completed'' w) else Some w)
                 else Some w) = Some (vacate w)"
    using cur by (auto simp: vacate_def split: option.splits)
  obtain xn where xn: "node_at ((vacate w)\<lparr>current_player_node_id := Some x\<rparr>) x = Some xn"
    using assms(2) by (auto simp: node_at_vacate)
  have pc: "paths_closed ?w3"
    by (rule paths_closed_keys[of w])
       (use assms(1) in \<open>simp_all add: wf_world_def arrive_fields vacate_fields\<close>)
  have "set_current_player_node_v2 x w = update_all_visuals_v2 ?w3"
    unfolding set_current_player_node_v2_def w1 Let_def using xn
    by (simp add: arrive_def)
  also have "\<dots> = Some ((update_all_visuals_v1 ?w3)\<lparr>paths_entities := path_sync_v2 (update_node_visuals ?w3)\<rparr>)"
    by (rule update_all_visuals_v2_Some[OF pc])
  finally show ?thesis
    by (auto simp: scp_v1_phases map_fst_path_sync_v2 update_node_visuals_fields arrive_fields vacate_fields)
qed

lemma state_at_scp_v1:
  "state_at (set_current_player_node_v1 x w) k = map_option (moved_state w x k) (state_at w k)"
  by (simp add: state_at_def node_at_set_current_player_node_v1 option.map_comp comp_def)









lemma wf_world_alt: "wf_world w \<longleftrightarrow> nodes_ok w \<and> paths_closed w"
  by (auto simp: wf_world_def nodes_ok_def)

lemma nodes_okI:
  assumes "distinct (map fst (all_level_nodes w))"
    and "\<And>k n. node_at w k = Some n \<Longrightarrow> level_id n = k"
    and "\<And>c. current_player_node_id w = Some c \<Longrightarrow> node_at w c \<noteq> None"
  shows "nodes_ok w"
  using assms by (auto simp: nodes_ok_def split: option.splits)

lemma nodes_ok_level_id: "nodes_ok w \<Longrightarrow> node_at w k = Some n \<Longrightarrow> level_id n = k"
  by (auto simp: nodes_ok_def dest: map_of_SomeD)

lemma nodes_ok_add:
  assumes "nodes_ok w" and "c = current_player_node_id w \<or> c = Some (cfg_id d)"
  shows "nodes_ok (w\<lparr>all_level_nodes := AList.update (cfg_id d) (LevelNode_init d) (all_level_nodes w),
                     current_player_node_id := c\<rparr>)"
proof (rule nodes_okI)
  let ?w = "w\<lparr>all_level_nodes := AList.update (cfg_id d) (LevelNode_init d) (all_level_nodes w),
              current_player_node_id := c\<rparr>"
  show "distinct (map fst (all_level_nodes ?w))"
    using assms(1) by (simp add: nodes_ok_def distinct_update)
  show "level_id n = k" if "node_at ?w k = Some n" for k n
    using that nodes_ok_level_id[OF assms(1), of k n]
    by (auto simp: update_conv' LevelNode_init_def split: if_splits)
  show "node_at ?w c' \<noteq> None" if "current_player_node_id ?w = Some c'" for c'
    using that assms by (auto simp: update_conv' nodes_ok_def split: option.splits)
qed

lemma nodes_ok_create_nodes_v1: "nodes_ok w \<Longrightarrow> nodes_ok (create_nodes_v1 ds w)"
proof (induction ds arbitrary: w)
  case Nil
  then show ?case by simp
next
  case (Cons d ds)
  show ?case
    unfolding create_nodes_v1.simps
    by (rule Cons.IH, rule nodes_ok_add[OF Cons.prems]) simp
qed

lemma nodes_ok_create_nodes_v2: "nodes_ok w \<Longrightarrow> nodes_ok (create_nodes_v2 ds w)"
proof (induction ds arbitrary: w)
  case Nil
  then show ?case by simp
next
  case (Cons d ds)
  show ?case
    unfolding create_nodes_v2.simps
    by (rule Cons.IH, rule nodes_ok_add[OF Cons.prems]) simp
qed

lemma create_nodes_v1_fields:
  "paths_entities (create_nodes_v1 ds w) = paths_entities w"
  "events (create_nodes_v1 ds w) = events w"
  "set (map fst (all_level_nodes (create_nodes_v1 ds w))) =
     set (map fst (all_level_nodes w)) \<union> cfg_id ` set ds"
  by (induction ds arbitrary: w) (auto simp: dom_update)

lemma create_nodes_v2_fields:
  "paths_entities (create_nodes_v2 ds w) = paths_entities w"
  "events (create_nodes_v2 ds w) = events w"
  "set (map fst (all_level_nodes (create_nodes_v2 ds w))) =
     set (map fst (all_level_nodes w)) \<union> cfg_id ` set ds"
  by (induction ds arbitrary: w) (auto simp: dom_update)

lemma create_nodes_v1_no_start:
  "\<forall>d \<in> set ds. cfg_initial_state d \<noteq> ''unlocked'' \<Longrightarrow>
   current_player_node_id (create_nodes_v1 ds w) = current_player_node_id w"
  by (induction ds arbitrary: w) simp_all

lemma create_nodes_v2_no_start:
  "\<forall>d \<in> set ds. cfg_initial_state d \<noteq> ''unlocked'' \<Longrightarrow>
   current_player_node_id (create_nodes_v2 ds w) = current_player_node_id w"
  by (induction ds arbitrary: w) simp_all

lemma paths_closed_keys_closed: "paths_closed w = keys_closed (all_level_nodes w) (paths_entities w)"
  by (simp add: paths_closed_alt keys_closed_def)

lemma keys_closed_create_paths_from:
  assumes "keys_closed nodes ps" and "node_id \<in> set (map fst nodes)"
  shows "keys_closed nodes (create_paths_from nodes node_id ts ps)"
  using assms
proof (induction ts arbitrary: ps)
  case Nil
  then show ?case by simp
next
  case (Cons t ts)
  have "keys_closed nodes (AList.update (path_key node_id t) new_path ps)"
    if "map_of nodes t \<noteq> None"
  proof -
    have "t \<in> set (map fst nodes)" using that by (simp add: map_of_eq_None_iff)
    then show ?thesis
      using Cons.prems
      by (auto simp: keys_closed_def dom_update path_key_def split: if_splits)
  qed
  then have "keys_closed nodes
               (if map_of nodes t \<noteq> None \<and> map_of ps (path_key node_id t) = None
                then AList.update (path_key node_id t) new_path ps else ps)"
    using Cons.prems(1) by simp
  then show ?case
    unfolding create_paths_from.simps by (rule Cons.IH) (rule Cons.prems(2))
qed

lemma keys_closed_create_paths:
  assumes "keys_closed nodes ps" and "set (map fst rest) \<subseteq> set (map fst nodes)"
  shows "keys_closed nodes (create_paths nodes rest ps)"
  using assms
proof (induction nodes rest ps rule: create_paths.induct)
  case (1 nodes ps)
  then show ?case by simp
next
  case (2 nodes node_id node rest ps)
  have "node_id \<in> set (map fst nodes)" using "2.prems"(2) by auto
  then have "keys_closed nodes (create_paths_from nodes node_id (unlocks node) ps)"
    by (rule keys_closed_create_paths_from[OF "2.prems"(1)])
  moreover have "set (map fst rest) \<subseteq> set (map fst nodes)" using "2.prems"(2) by auto
  ultimately show ?case
    unfolding create_paths.simps by (rule "2.IH")
qed

lemma synced_events [simp]: "synced (w\<lparr>events := e\<rparr>) = synced w"
  by (simp add: synced_def)

lemma synced_paths [simp]: "synced (w\<lparr>paths_entities := ps\<rparr>) = synced w"
  by (simp add: synced_def)

lemma synced_update_all_visuals_v1: "synced (update_all_visuals_v1 w)"
  by (auto simp: synced_def update_all_visuals_v1_def update_path_visuals_v1_fields
        update_node_visuals_def set_map_ran update_visual_state_def)

lemma node_at_None_keys:
  "map fst (all_level_nodes w') = map fst (all_level_nodes w) \<Longrightarrow>
   (node_at w' k = None) = (node_at w k = None)"
  by (metis map_of_eq_None_iff set_map)

lemma wf_pointer: "wf_world w \<Longrightarrow> current_player_node_id w = Some c \<Longrightarrow> node_at w c \<noteq> None"
  by (auto simp: wf_world_def)

lemma wf_distinct: "wf_world w \<Longrightarrow> distinct (map fst (all_level_nodes w))"
  by (simp add: wf_world_def)

lemma wf_paths_closed: "wf_world w \<Longrightarrow> paths_closed w"
  by (simp add: wf_world_def)

lemma wf_same_keys:
  assumes "wf_world w"
    and "map fst (all_level_nodes w') = map fst (all_level_nodes w)"
    and "map fst (paths_entities w') = map fst (paths_entities w)"
    and "\<And>k n'. node_at w' k = Some n' \<Longrightarrow> \<exists>n. node_at w k = Some n \<and> level_id n' = level_id n"
    and "\<And>c. current_player_node_id w' = Some c \<Longrightarrow> node_at w c \<noteq> None"
  shows "wf_world w'"
proof (rule wf_worldI)
  show "distinct (map fst (all_level_nodes w'))"
    using wf_distinct[OF assms(1)] by (simp only: assms(2))
  show "level_id n = k" if "node_at w' k = Some n" for k n
    using assms(4)[OF that] wf_level_id[OF assms(1)] by auto
  show "paths_closed w'"
    by (rule paths_closed_keys[OF wf_paths_closed[OF assms(1)] assms(2,3)])
  show "node_at w' c \<noteq> None" if "current_player_node_id w' = Some c" for c
    using assms(5)[OF that] by (simp only: node_at_None_keys[OF assms(2)] not_False_eq_True)
qed

lemma wf_update_all_visuals_v1:
  assumes "wf_world w" shows "wf_world (update_all_visuals_v1 w)"
proof (rule wf_same_keys[OF assms])
  show "\<exists>n. node_at w k = Some n \<and> level_id n' = level_id n"
    if "node_at (update_all_visuals_v1 w) k = Some n'" for k n'
    using that by (auto simp: node_at_update_all_visuals_v1 update_visual_state_def)
  show "node_at w c \<noteq> None"
    if "current_player_node_id (update_all_visuals_v1 w) = Some c" for c
    by (rule wf_pointer[OF assms]) (use that in \<open>simp add: update_all_visuals_v1_fields\<close>)
qed (simp_all add: update_all_visuals_v1_fields)

lemma wf_paths_same_keys:
  assumes "wf_world w" and "map fst ps = map fst (paths_entities w)"
  shows "wf_world (w\<lparr>paths_entities := ps\<rparr>)"
  by (rule wf_same_keys[OF assms(1)]) (use assms(2) wf_pointer[OF assms(1)] in simp_all)

lemma wf_node_set_state:
  assumes "wf_world w" shows "wf_world (node_set_state k s w)"
proof (rule wf_same_keys[OF assms])
  show "\<exists>n. node_at w k' = Some n \<and> level_id n' = level_id n"
    if "node_at (node_set_state k s w) k' = Some n'" for k' n'
    using that by (auto simp: node_at_node_set_state set_state_def split: if_splits)
  show "node_at w c \<noteq> None"
    if "current_player_node_id (node_set_state k s w) = Some c" for c
    by (rule wf_pointer[OF assms]) (use that in \<open>simp add: node_set_state_fields\<close>)
qed (simp_all add: node_set_state_fields)

lemma wf_set_pointer:
  assumes "wf_world w" and "node_at w c \<noteq> None"
  shows "wf_world (w\<lparr>current_player_node_id := Some c\<rparr>)"
  by (rule wf_same_keys[OF assms(1)]) (use assms(2) in simp_all)

lemma nodes_ok_empty: "nodes_ok empty_world"
  by (simp add: nodes_ok_def empty_world_def)

lemma wf_with_paths:
  assumes "nodes_ok w"
  shows "wf_world (w\<lparr>paths_entities :=
            create_paths (all_level_nodes w) (all_level_nodes w) []\<rparr>)"
proof -
  have "keys_closed (all_level_nodes w) (create_paths (all_level_nodes w) (all_level_nodes w) [])"
    by (rule keys_closed_create_paths) (simp_all add: keys_closed_def)
  then have "paths_closed (w\<lparr>paths_entities :=
            create_paths (all_level_nodes w) (all_level_nodes w) []\<rparr>)"
    by (simp add: paths_closed_keys_closed)
  moreover have "nodes_ok (w\<lparr>paths_entities :=
            create_paths (all_level_nodes w) (all_level_nodes w) []\<rparr>)"
    using assms by (auto simp: nodes_ok_def split: option.splits)
  ultimately show ?thesis by (simp only: wf_world_alt simp_thms)
qed

lemma first_id_present_v1:
  "node_at (create_nodes_v1 (d # ds) w) (cfg_id d) \<noteq> None"
proof -
  have "cfg_id d \<in> set (map fst (all_level_nodes (create_nodes_v1 (d # ds) w)))"
    unfolding create_nodes_v1_fields(3) by simp
  then show ?thesis unfolding node_at_None_iff by blast
qed

lemma first_id_present_v2:
  "node_at (create_nodes_v2 (d # ds) w) (cfg_id d) \<noteq> None"
proof -
  have "cfg_id d \<in> set (map fst (all_level_nodes (create_nodes_v2 (d # ds) w)))"
    unfolding create_nodes_v2_fields(3) by simp
  then show ?thesis unfolding node_at_None_iff by blast
qed

lemma wf_fallback_v1:
  assumes "wf_world w2" and "node_at w2 c \<noteq> None"
  shows "wf_world
           (if current_player_node_id w2 = None then
              (let w' = w2\<lparr>current_player_node_id := Some c\<rparr>
               in if c \<noteq> [] \<and> map_of (all_level_nodes w') c \<noteq> None
                  then node_set_state c ''unlocked'' w' else w')
            else w2)"
  using assms wf_set_pointer[OF assms] by (auto simp: Let_def wf_node_set_state)

lemma setup_v1_wf: "wf_world (setup_level_nodes_and_paths_v1 cfg empty_world)"
proof -
  define w1 where "w1 = create_nodes_v1 cfg empty_world"
  define w2 where "w2 = w1\<lparr>paths_entities :=
               create_paths (all_level_nodes w1) (all_level_nodes w1) (paths_entities w1)\<rparr>"
  have p: "paths_entities w1 = []" by (simp add: w1_def create_nodes_v1_fields empty_world_def)
  have "nodes_ok w1" unfolding w1_def by (rule nodes_ok_create_nodes_v1, rule nodes_ok_empty)
  then have w2: "wf_world w2"
    unfolding w2_def p by (rule wf_with_paths)
  show ?thesis
  proof (cases cfg)
    case Nil
    then show ?thesis
      using w2 unfolding setup_level_nodes_and_paths_v1_def Let_def w1_def[symmetric] w2_def[symmetric]
      by (simp add: wf_update_all_visuals_v1)
  next
    case (Cons d0 ds)
    have "node_at w1 (cfg_id d0) \<noteq> None"
      unfolding w1_def Cons by (rule first_id_present_v1)
    then have pres: "node_at w2 (cfg_id d0) \<noteq> None" by (simp add: w2_def)
    show ?thesis
      unfolding setup_level_nodes_and_paths_v1_def w1_def[symmetric] Let_def[of w1]
      unfolding w2_def[symmetric] Let_def[of w2]
      unfolding Cons list.case Let_def[of "if _ then _ else _"]
      by (rule wf_update_all_visuals_v1, rule wf_fallback_v1[OF w2 pres])
  qed
qed

lemma setup_v1_synced: "synced (setup_level_nodes_and_paths_v1 cfg w0)"
  by (simp add: setup_level_nodes_and_paths_v1_def Let_def synced_update_all_visuals_v1)

lemma setup_v1_pointer:
  "cfg \<noteq> [] \<Longrightarrow> current_player_node_id (setup_level_nodes_and_paths_v1 cfg w0) \<noteq> None"
  by (cases cfg)
     (auto simp: setup_level_nodes_and_paths_v1_def Let_def update_all_visuals_v1_fields
        node_set_state_fields)

lemma filter_current_none:
  assumes "c \<notin> fst ` set al" and "\<forall>(k, n) \<in> set al. is_current_game_node n = (k = c)"
  shows "filter (\<lambda>(k, n). is_current_game_node n) al = []"
  using assms by (induction al) auto

lemma filter_current_one:
  assumes "distinct (map fst al)" and "c \<in> fst ` set al"
    and "\<forall>(k, n) \<in> set al. is_current_game_node n = (k = c)"
  shows "map fst (filter (\<lambda>(k, n). is_current_game_node n) al) = [c]"
  using assms
proof (induction al)
  case Nil
  then show ?case by simp
next
  case (Cons kn al)
  obtain k n where kn: "kn = (k, n)" by (cases kn)
  show ?case
  proof (cases "k = c")
    case True
    then have "c \<notin> fst ` set al" using Cons.prems(1) by (simp add: kn)
    moreover have "\<forall>(k, n) \<in> set al. is_current_game_node n = (k = c)"
      using Cons.prems(3) by simp
    ultimately have "filter (\<lambda>(k, n). is_current_game_node n) al = []"
      by (rule filter_current_none)
    then show ?thesis using True Cons.prems(3) by (simp add: kn)
  next
    case False
    then have "c \<in> fst ` set al" using Cons.prems(2) by (auto simp: kn)
    moreover have "distinct (map fst al)" using Cons.prems(1) by simp
    moreover have "\<forall>(k, n) \<in> set al. is_current_game_node n = (k = c)"
      using Cons.prems(3) by simp
    ultimately have "map fst (filter (\<lambda>(k, n). is_current_game_node n) al) = [c]"
      by (intro Cons.IH)
    then show ?thesis using False Cons.prems(3) by (simp add: kn)
  qed
qed

lemma single_current:
  assumes "wf_world w" and "synced w" and "current_player_node_id w = Some c"
  shows "current_nodes w = [c]"
proof -
  have "node_at w c \<noteq> None" using assms(1,3) by (rule wf_pointer)
  then have "c \<in> fst ` set (all_level_nodes w)" by (simp add: map_of_eq_None_iff)
  moreover have "\<forall>(k, n) \<in> set (all_level_nodes w). is_current_game_node n = (k = c)"
    using assms(2,3) by (auto simp: synced_def)
  ultimately show ?thesis
    unfolding current_nodes_def
    by (intro filter_current_one wf_distinct[OF assms(1)])
qed

lemma synced_set_current_player_node_v1: "synced (set_current_player_node_v1 x w)"
  by (simp add: scp_v1_phases synced_update_all_visuals_v1)

lemma synced_handle_node_click_v1: "synced w \<Longrightarrow> synced (handle_node_click_v1 n w)"
  by (simp add: handle_node_click_v1_def Let_def synced_set_current_player_node_v1)

lemma pointer_handle_node_click_v1:
  "current_player_node_id w \<noteq> None \<Longrightarrow> current_player_node_id (handle_node_click_v1 n w) \<noteq> None"
  by (simp add: handle_node_click_v1_def Let_def set_current_player_node_v1_fields)

lemma synced_clicks_v1: "synced w \<Longrightarrow> synced (clicks_v1 ks w)"
  by (induction ks arbitrary: w)
     (simp_all add: on_click_v1_def synced_handle_node_click_v1 split: option.splits)

lemma pointer_clicks_v1:
  "current_player_node_id w \<noteq> None \<Longrightarrow> current_player_node_id (clicks_v1 ks w) \<noteq> None"
proof (induction ks arbitrary: w)
  case Nil
  then show ?case by simp
next
  case (Cons k ks)
  have "current_player_node_id (on_click_v1 k w) \<noteq> None"
    using Cons.prems pointer_handle_node_click_v1[OF Cons.prems]
    by (simp add: on_click_v1_def split: option.splits)
  then show ?case by (simp add: Cons.IH)
qed

lemma handle_node_click_v2_good:
  assumes "good w" and "node_at w k = Some n"
  shows "\<exists>w'. handle_node_click_v2 n w = Some w' \<and> good w'"
proof -
  have wf: "wf_world w" and sy: "synced w" and pt: "current_player_node_id w \<noteq> None"
    using assms(1) by (simp_all add: good_def)
  have ev: "good (w\<lparr>events := e\<rparr>)" for e using assms(1) by (simp add: good_def)
  have id: "level_id n = k" using wf assms(2) by (rule wf_level_id)
  have "node_at w (level_id n) \<noteq> None" using assms(2) id by simp
  from scp_v2_eq[OF wf this] obtain ps where
    mv: "set_current_player_node_v2 (level_id n) w =
           Some ((set_current_player_node_v1 (level_id n) w)\<lparr>paths_entities := ps\<rparr>)"
    and ks: "map fst ps = map fst (paths_entities w)"
    by blast
  let ?m = "(set_current_player_node_v1 (level_id n) w)\<lparr>paths_entities := ps\<rparr>"
  have "wf_world (set_current_player_node_v1 (level_id n) w)"
    using wf \<open>node_at w (level_id n) \<noteq> None\<close> by (rule wf_set_current_player_node_v1)
  then have "wf_world ?m"
    by (rule wf_paths_same_keys) (simp add: ks set_current_player_node_v1_fields)
  then have "good (?m\<lparr>events := e\<rparr>)" for e
    by (simp add: good_def synced_set_current_player_node_v1 set_current_player_node_v1_fields)
  then show ?thesis
    using ev by (auto simp: handle_node_click_v2_def Let_def mv)
qed

lemma clicks_v2_good:
  assumes "good w"
  shows "\<exists>w'. clicks_v2 ks w = Some w' \<and> good w'"
  using assms
proof (induction ks arbitrary: w)
  case Nil
  then show ?case by simp
next
  case (Cons k ks)
  have "\<exists>w1. on_click_v2 k w = Some w1 \<and> good w1"
  proof (cases "node_at w k")
    case None
    then show ?thesis using Cons.prems by (simp add: on_click_v2_def)
  next
    case (Some n)
    then show ?thesis
      using handle_node_click_v2_good[OF Cons.prems Some] by (simp add: on_click_v2_def)
  qed
  then obtain w1 where "on_click_v2 k w = Some w1" "good w1" by blast
  then show ?case using Cons.IH[of w1] by simp
qed

lemma clicks_v1_good: "good w \<Longrightarrow> good (clicks_v1 ks w)"
  by (simp add: good_def wf_clicks_v1 synced_clicks_v1 pointer_clicks_v1)

lemma setup_v1_good: "cfg \<noteq> [] \<Longrightarrow> good (setup_level_nodes_and_paths_v1 cfg empty_world)"
  by (simp add: good_def setup_v1_wf setup_v1_synced setup_v1_pointer)

lemma wf_fallback_v2:
  assumes "wf_world w2" and "node_at w2 c \<noteq> None"
  shows "\<exists>w3. (if \<not> truthy (current_player_node_id w2) then
                 (let w' = w2\<lparr>current_player_node_id := Some c\<rparr>
                  in case map_of (all_level_nodes w') c of
                       None \<Rightarrow> None
                     | Some _ \<Rightarrow> Some (node_set_state c ''unlocked'' w'))
               else Some w2) = Some w3 \<and>
              wf_world w3 \<and> current_player_node_id w3 \<noteq> None"
proof (cases "truthy (current_player_node_id w2)")
  case True
  then have "current_player_node_id w2 \<noteq> None" by (auto simp: truthy_def split: option.splits)
  then show ?thesis using True assms(1) by simp
next
  case False
  have "wf_world (node_set_state c ''unlocked'' (w2\<lparr>current_player_node_id := Some c\<rparr>))"
    by (rule wf_node_set_state, rule wf_set_pointer[OF assms])
  then show ?thesis
    using False assms(2) by (auto simp: Let_def node_set_state_fields)
qed

lemma update_all_visuals_v2_good:
  assumes "wf_world w" and "current_player_node_id w \<noteq> None"
  shows "\<exists>w'. update_all_visuals_v2 w = Some w' \<and> good w'"
proof -
  let ?w' = "(update_all_visuals_v1 w)\<lparr>paths_entities := path_sync_v2 (update_node_visuals w)\<rparr>"
  have "update_all_visuals_v2 w = Some ?w'"
    by (rule update_all_visuals_v2_Some, rule wf_paths_closed[OF assms(1)])
  moreover have "wf_world ?w'"
    by (rule wf_paths_same_keys, rule wf_update_all_visuals_v1[OF assms(1)])
       (simp add: map_fst_path_sync_v2 update_node_visuals_fields update_all_visuals_v1_fields)
  moreover have "synced ?w'" by (simp add: synced_update_all_visuals_v1)
  moreover have "current_player_node_id ?w' \<noteq> None"
    using assms(2) by (simp add: update_all_visuals_v1_fields)
  ultimately show ?thesis by (simp add: good_def)
qed

lemma setup_v2_good:
  assumes "cfg \<noteq> []"
  shows "\<exists>w. setup_level_nodes_and_paths_v2 cfg empty_world = Some w \<and> good w"
proof -
  define w1 where "w1 = create_nodes_v2 cfg empty_world"
  define w2 where "w2 = w1\<lparr>paths_entities :=
               create_paths (all_level_nodes w1) (all_level_nodes w1) (paths_entities w1)\<rparr>"
  have p: "paths_entities w1 = []" by (simp add: w1_def create_nodes_v2_fields empty_world_def)
  have "nodes_ok w1" unfolding w1_def by (rule nodes_ok_create_nodes_v2, rule nodes_ok_empty)
  then have w2: "wf_world w2"
    unfolding w2_def p by (rule wf_with_paths)
  obtain d0 ds where Cons: "cfg = d0 # ds" using assms by (cases cfg) auto
  have "node_at w1 (cfg_id d0) \<noteq> None"
    unfolding w1_def Cons by (rule first_id_present_v2)
  then have pres: "node_at w2 (cfg_id d0) \<noteq> None" by (simp add: w2_def)
  from wf_fallback_v2[OF w2 pres] obtain w3 where
    w3: "(if \<not> truthy (current_player_node_id w2) then
            (let w' = w2\<lparr>current_player_node_id := Some (cfg_id d0)\<rparr>
             in case map_of (all_level_nodes w') (cfg_id d0) of
                  None \<Rightarrow> None
                | Some _ \<Rightarrow> Some (node_set_state (cfg_id d0) ''unlocked'' w'))
          else Some w2) = Some w3"
    and wf3: "wf_world w3" and pt3: "current_player_node_id w3 \<noteq> None"
    by blast
  have "setup_level_nodes_and_paths_v2 cfg empty_world = update_all_visuals_v2 w3"
    unfolding setup_level_nodes_and_paths_v2_def w1_def[symmetric] Let_def[of w1]
    unfolding w2_def[symmetric] Let_def[of w2]
    unfolding Cons list.case w3 Let_def[of "Some w3"]
    by simp
  then show ?thesis using update_all_visuals_v2_good[OF wf3 pt3] by simp
qed

lemma advances_refl: "advances s s"
  by (simp add: advances_def)

lemma advances_trans: "advances a b \<Longrightarrow> advances b c \<Longrightarrow> advances a c"
  by (auto simp: advances_def)

lemma advances_not_regresses: "advances s s' \<Longrightarrow> \<not> regresses s s'"
  by (auto simp: advances_def regresses_def)

lemma advances_moved_state: "advances s (moved_state w x k s)"
  by (auto simp: moved_state_def advances_def Let_def split: option.splits)

lemma le_states_refl: "le_states w w"
  by (auto simp: le_states_def advances_refl)

lemma le_states_trans: "le_states a b \<Longrightarrow> le_states b c \<Longrightarrow> le_states a c"
  unfolding le_states_def by (meson advances_trans)

lemma le_states_events: "le_states w (w\<lparr>events := e\<rparr>)"
  by (auto simp: le_states_def state_at_def advances_refl)

lemma le_states_scp_v1: "le_states w (set_current_player_node_v1 x w)"
  by (auto simp: le_states_def state_at_scp_v1 advances_moved_state)

lemma le_states_same: "all_level_nodes w' = all_level_nodes w \<Longrightarrow> le_states w w'"
  by (auto simp: le_states_def state_at_def advances_refl)

lemma le_states_cong:
  "all_level_nodes w'' = all_level_nodes w' \<Longrightarrow> le_states w w' \<Longrightarrow> le_states w w''"
  by (simp add: le_states_def state_at_def)

lemma le_states_handle_v1: "le_states w (handle_node_click_v1 n w)"
  by (auto simp: handle_node_click_v1_def Let_def le_states_events
        intro: le_states_cong[OF _ le_states_scp_v1])

lemma le_states_clicks_v1: "le_states w (clicks_v1 ks w)"
proof (induction ks arbitrary: w)
  case Nil
  show ?case by (simp add: le_states_refl)
next
  case (Cons k ks)
  have "le_states w (on_click_v1 k w)"
    by (simp add: on_click_v1_def le_states_refl le_states_handle_v1 split: option.splits)
  then show ?case using Cons.IH[of "on_click_v1 k w"] by (auto intro: le_states_trans)
qed

lemma handle_node_click_v2_wf:
  assumes wf: "wf_world w" and n: "node_at w k = Some n"
  shows "\<exists>w'. handle_node_click_v2 n w = Some w' \<and> wf_world w' \<and> le_states w w'"
proof -
  have id: "level_id n = k" using wf n by (rule wf_level_id)
  have ex: "node_at w (level_id n) \<noteq> None" using n id by simp
  from scp_v2_eq[OF wf this] obtain ps where
    mv: "set_current_player_node_v2 (level_id n) w =
           Some ((set_current_player_node_v1 (level_id n) w)\<lparr>paths_entities := ps\<rparr>)"
    and ks: "map fst ps = map fst (paths_entities w)"
    by blast
  let ?m = "(set_current_player_node_v1 (level_id n) w)\<lparr>paths_entities := ps\<rparr>"
  have "wf_world (set_current_player_node_v1 (level_id n) w)"
    using wf ex by (rule wf_set_current_player_node_v1)
  then have "wf_world ?m"
    by (rule wf_paths_same_keys) (simp add: ks set_current_player_node_v1_fields)
  then have a: "wf_world (?m\<lparr>events := e\<rparr>)" for e by simp
  have b: "le_states w (?m\<lparr>events := e\<rparr>)" for e
    by (rule le_states_cong[OF _ le_states_scp_v1[of w "level_id n"]]) simp
  show ?thesis
    using a b wf by (auto simp: handle_node_click_v2_def Let_def mv le_states_events)
qed

lemma clicks_v2_wf:
  assumes "wf_world w"
  shows "\<exists>w'. clicks_v2 ks w = Some w' \<and> wf_world w' \<and> le_states w w'"
  using assms
proof (induction ks arbitrary: w)
  case Nil
  then show ?case by (simp add: le_states_refl)
next
  case (Cons k ks)
  have "\<exists>w1. on_click_v2 k w = Some w1 \<and> wf_world w1 \<and> le_states w w1"
  proof (cases "node_at w k")
    case None
    then show ?thesis using Cons.prems by (simp add: on_click_v2_def le_states_refl)
  next
    case (Some n)
    then show ?thesis
      using handle_node_click_v2_wf[OF Cons.prems Some] by (simp add: on_click_v2_def)
  qed
  then obtain w1 where w1: "on_click_v2 k w = Some w1" "wf_world w1" "le_states w w1" by blast
  from Cons.IH[OF w1(2)] obtain w' where
    "clicks_v2 ks w1 = Some w'" "wf_world w'" "le_states w1 w'" by blast
  then show ?case using w1 by (auto intro: le_states_trans)
qed

lemma setup_v2_wf: "\<exists>w. setup_level_nodes_and_paths_v2 cfg empty_world = Some w \<and> wf_world w"
proof (cases cfg)
  case Nil
  have "setup_level_nodes_and_paths_v2 [] empty_world = Some empty_world" by code_simp
  moreover have "wf_world empty_world" by code_simp
  ultimately show ?thesis using Nil by simp
next
  case (Cons d ds)
  then have "cfg \<noteq> []" by simp
  from setup_v2_good[OF this] show ?thesis by (auto simp: good_def)
qed

lemma node_at_fallback_synced:
  assumes "node_at w2 c = Some n0"
  shows "\<exists>n. node_at (update_node_visuals (node_set_state c ''unlocked''
                  (w2\<lparr>current_player_node_id := Some c\<rparr>))) c = Some n \<and>
              node_state n = ''unlocked'' \<and> is_current_game_node n"
  using assms
  by (simp add: node_at_update_node_visuals node_at_node_set_state node_set_state_fields
        set_state_def update_visual_state_def)

lemma setup_v1_fallback:
  assumes "\<forall>d \<in> set (d0 # ds). cfg_initial_state d \<noteq> ''unlocked''" and "cfg_id d0 \<noteq> []"
  shows "current_player_node_id (setup_level_nodes_and_paths_v1 (d0 # ds) empty_world) = Some (cfg_id d0) \<and>
         (\<exists>n. map_of (all_level_nodes (setup_level_nodes_and_paths_v1 (d0 # ds) empty_world)) (cfg_id d0)
                 = Some n \<and>
               node_state n = ''unlocked'' \<and> is_current_game_node n)"
proof -
  define w1 where "w1 = create_nodes_v1 (d0 # ds) empty_world"
  define w2 where "w2 = w1\<lparr>paths_entities :=
               create_paths (all_level_nodes w1) (all_level_nodes w1) (paths_entities w1)\<rparr>"
  have "current_player_node_id w1 = None"
    unfolding w1_def create_nodes_v1_no_start[OF assms(1)] by (simp add: empty_world_def)
  then have c2: "current_player_node_id w2 = None" by (simp add: w2_def)
  have "node_at w1 (cfg_id d0) \<noteq> None" unfolding w1_def by (rule first_id_present_v1)
  then obtain n0 where n0: "node_at w2 (cfg_id d0) = Some n0" by (auto simp: w2_def)
  have eq: "setup_level_nodes_and_paths_v1 (d0 # ds) empty_world =
        update_all_visuals_v1 (node_set_state (cfg_id d0) ''unlocked''
          (w2\<lparr>current_player_node_id := Some (cfg_id d0)\<rparr>))"
    unfolding setup_level_nodes_and_paths_v1_def w1_def[symmetric] Let_def[of w1]
    unfolding w2_def[symmetric] Let_def[of w2]
    using c2 n0 assms(2) by (simp add: Let_def)
  show ?thesis
    unfolding eq using node_at_fallback_synced[OF n0]
    by (simp add: update_all_visuals_v1_fields node_set_state_fields update_all_visuals_v1_def
          update_path_visuals_v1_fields update_node_visuals_fields)
qed

lemma setup_v2_fallback:
  assumes "\<forall>d \<in> set (d0 # ds). cfg_initial_state d \<noteq> ''unlocked''"
  shows "\<exists>w n. setup_level_nodes_and_paths_v2 (d0 # ds) empty_world = Some w \<and>
               current_player_node_id w = Some (cfg_id d0) \<and>
               map_of (all_level_nodes w) (cfg_id d0) = Some n \<and>
               node_state n = ''unlocked'' \<and> is_current_game_node n"
proof -
  define w1 where "w1 = create_nodes_v2 (d0 # ds) empty_world"
  define w2 where "w2 = w1\<lparr>paths_entities :=
               create_paths (all_level_nodes w1) (all_level_nodes w1) (paths_entities w1)\<rparr>"
  define w3 where "w3 = node_set_state (cfg_id d0) ''unlocked''
          (w2\<lparr>current_player_node_id := Some (cfg_id d0)\<rparr>)"
  have p: "paths_entities w1 = []" by (simp add: w1_def create_nodes_v2_fields empty_world_def)
  have "nodes_ok w1" unfolding w1_def by (rule nodes_ok_create_nodes_v2, rule nodes_ok_empty)
  then have wf2: "wf_world w2" unfolding w2_def p by (rule wf_with_paths)
  have "current_player_node_id w1 = None"
    unfolding w1_def create_nodes_v2_no_start[OF assms(1)] by (simp add: empty_world_def)
  then have c2: "\<not> truthy (current_player_node_id w2)" by (simp add: w2_def truthy_def)
  have "node_at w1 (cfg_id d0) \<noteq> None" unfolding w1_def by (rule first_id_present_v2)
  then obtain n0 where n0: "node_at w2 (cfg_id d0) = Some n0" by (auto simp: w2_def)
  have wf3: "wf_world w3"
    unfolding w3_def by (rule wf_node_set_state, rule wf_set_pointer[OF wf2]) (simp add: n0)
  have eq: "setup_level_nodes_and_paths_v2 (d0 # ds) empty_world = update_all_visuals_v2 w3"
    unfolding setup_level_nodes_and_paths_v2_def w1_def[symmetric] Let_def[of w1]
    unfolding w2_def[symmetric] Let_def[of w2]
    using c2 n0 by (simp add: Let_def w3_def)
  also have "\<dots> = Some ((update_all_visuals_v1 w3)\<lparr>paths_entities := path_sync_v2 (update_node_visuals w3)\<rparr>)"
    by (rule update_all_visuals_v2_Some, rule wf_paths_closed[OF wf3])
  finally show ?thesis
    using node_at_fallback_synced[OF n0]
    by (simp add: w3_def update_all_visuals_v1_fields node_set_state_fields update_all_visuals_v1_def
          update_path_visuals_v1_fields update_node_visuals_fields)
qed

lemma setup_v1_one_node:
  assumes "cfg_unlocks d = []"
  shows "paths_entities (setup_level_nodes_and_paths_v1 [d] empty_world) = []"
  using assms
  by (simp add: setup_level_nodes_and_paths_v1_def Let_def empty_world_def LevelNode_init_def
        update_all_visuals_v1_def update_path_visuals_v1_def update_node_visuals_def
        node_set_state_def)

lemma setup_v2_one_node:
  assumes "cfg_unlocks d = []"
  shows "\<exists>w. setup_level_nodes_and_paths_v2 [d] empty_world = Some w \<and> paths_entities w = []"
  using assms
  by (simp add: setup_level_nodes_and_paths_v2_def Let_def empty_world_def LevelNode_init_def
        update_all_visuals_v2_def update_path_visuals_v2_def update_node_visuals_def
        node_set_state_def)

lemma states_valid_create_nodes_v1:
  "states_valid w \<Longrightarrow> valid_config ds \<Longrightarrow> states_valid (create_nodes_v1 ds w)"
proof (induction ds arbitrary: w)
  case Nil
  then show ?case by simp
next
  case (Cons d ds)
  have "states_valid (w\<lparr>all_level_nodes := AList.update (cfg_id d) (LevelNode_init d) (all_level_nodes w),
          current_player_node_id := c\<rparr>)" for c
    using Cons.prems
    by (auto simp: states_valid_def state_at_def update_conv' valid_config_def LevelNode_init_def
          split: if_splits)
  moreover have "valid_config ds" using Cons.prems(2) by (simp add: valid_config_def)
  ultimately show ?case
    unfolding create_nodes_v1.simps by (intro Cons.IH)
qed

lemma states_valid_cong:
  "(\<And>k. state_at w' k = state_at w k) \<Longrightarrow> states_valid w \<Longrightarrow> states_valid w'"
  by (simp add: states_valid_def)

lemma state_at_update_all_visuals_v1: "state_at (update_all_visuals_v1 w) k = state_at w k"
  by (simp add: state_at_def node_at_update_all_visuals_v1 option.map_comp comp_def
        update_visual_state_def)

lemma states_valid_node_set_state:
  "states_valid w \<Longrightarrow> valid_state s \<Longrightarrow> states_valid (node_set_state k s w)"
  by (auto simp: states_valid_def state_at_def node_at_node_set_state set_state_def
        split: if_splits)

lemma states_valid_setup_v1:
  assumes "valid_config cfg"
  shows "states_valid (setup_level_nodes_and_paths_v1 cfg empty_world)"
proof -
  define w1 where "w1 = create_nodes_v1 cfg empty_world"
  define w2 where "w2 = w1\<lparr>paths_entities :=
               create_paths (all_level_nodes w1) (all_level_nodes w1) (paths_entities w1)\<rparr>"
  have "states_valid empty_world" by (simp add: states_valid_def state_at_def empty_world_def)
  then have "states_valid w1" unfolding w1_def using assms by (rule states_valid_create_nodes_v1)
  then have v2: "states_valid w2" by (simp add: states_valid_def state_at_def w2_def)
  then have v2': "states_valid (w2\<lparr>current_player_node_id := c\<rparr>)" for c
    by (simp add: states_valid_def state_at_def)
  have u: "valid_state ''unlocked''" by (simp add: valid_state_def)
  have "states_valid (case cfg of
                  [] \<Rightarrow> w2
                | d0 # _ \<Rightarrow>
                    if current_player_node_id w2 = None then
                      (let w' = w2\<lparr>current_player_node_id := Some (cfg_id d0)\<rparr>
                       in if cfg_id d0 \<noteq> [] \<and> map_of (all_level_nodes w') (cfg_id d0) \<noteq> None
                          then node_set_state (cfg_id d0) ''unlocked'' w'
                          else w')
                    else w2)"
    using v2 v2' states_valid_node_set_state[OF v2' u]
    by (auto simp: Let_def split: list.splits)
  then show ?thesis
    unfolding setup_level_nodes_and_paths_v1_def w1_def[symmetric] Let_def[of w1]
    unfolding w2_def[symmetric] Let_def[of w2] Let_def[of "case_list _ _ _"]
    by (rule states_valid_cong[rotated]) (rule state_at_update_all_visuals_v1)
qed

lemma valid_moved_state: "valid_state s \<Longrightarrow> valid_state (moved_state w x k s)"
  by (auto simp: moved_state_def valid_state_def Let_def split: option.splits)

lemma states_validD: "states_valid w \<Longrightarrow> node_at w k = Some n \<Longrightarrow> valid_state (node_state n)"
  by (auto simp: states_valid_def state_at_def)

lemma states_valid_scp_v1:
  assumes "states_valid w" shows "states_valid (set_current_player_node_v1 x w)"
  unfolding states_valid_def
proof (intro allI impI)
  fix k s assume "state_at (set_current_player_node_v1 x w) k = Some s"
  then obtain s0 where "state_at w k = Some s0" "s = moved_state w x k s0"
    by (auto simp: state_at_scp_v1)
  then show "valid_state s"
    using assms valid_moved_state by (simp add: states_valid_def)
qed

lemma states_valid_events: "states_valid w \<Longrightarrow> states_valid (w\<lparr>events := e\<rparr>)"
  by (simp add: states_valid_def state_at_def)

lemma states_valid_handle_v1: "states_valid w \<Longrightarrow> states_valid (handle_node_click_v1 n w)"
  by (simp add: handle_node_click_v1_def Let_def states_valid_events states_valid_scp_v1)

lemma states_valid_clicks_v1: "states_valid w \<Longrightarrow> states_valid (clicks_v1 ks w)"
  by (induction ks arbitrary: w)
     (simp_all add: on_click_v1_def states_valid_handle_v1 split: option.splits)

lemma handle_v1_moves:
  assumes "node_state n = ''unlocked'' \<or> node_state n = ''completed''"
    and "current_player_node_id w \<noteq> Some (level_id n)"
  shows "handle_node_click_v1 n w =
           (set_current_player_node_v1 (level_id n) w)
             \<lparr>events := events (set_current_player_node_v1 (level_id n) w) @ [Moved (level_name n)]\<rparr>"
  using assms by (auto simp: handle_node_click_v1_def Let_def)

lemma current_nodes_cong:
  "all_level_nodes w' = all_level_nodes w \<Longrightarrow> current_nodes w' = current_nodes w"
  by (simp add: current_nodes_def)

lemma single_current_after_move_v1:
  assumes "wf_world w" and "node_at w x \<noteq> None"
  shows "current_nodes (set_current_player_node_v1 x w) = [x]"
  by (rule single_current)
     (simp_all add: wf_set_current_player_node_v1[OF assms] synced_set_current_player_node_v1
        set_current_player_node_v1_fields)

lemma single_current_after_move_v2:
  assumes "wf_world w" and "node_at w x \<noteq> None"
  shows "\<exists>w'. set_current_player_node_v2 x w = Some w' \<and>
              current_player_node_id w' = Some x \<and> current_nodes w' = [x]"
proof -
  from scp_v2_eq[OF assms] obtain ps where
    "set_current_player_node_v2 x w =
       Some ((set_current_player_node_v1 x w)\<lparr>paths_entities := ps\<rparr>)"
    by blast
  moreover have "current_nodes ((set_current_player_node_v1 x w)\<lparr>paths_entities := ps\<rparr>) = [x]"
    using single_current_after_move_v1[OF assms] by (simp add: current_nodes_def)
  ultimately show ?thesis by (simp add: set_current_player_node_v1_fields)
qed

text \<open>
  On the shipped map nothing ever moves: initialisation never runs the unlock loop for
  the start node, so every other node stays locked and every click is either rejected
  or the entering-level text on the start node.
\<close>

lemma shipped_nodes_locked_or_current:
  assumes "map_of (all_level_nodes shipped_world) k = Some n"
  shows "node_state n = ''locked'' \<or> Some (level_id n) = current_player_node_id shipped_world"
proof -
  have "\<forall>(k, n) \<in> set (all_level_nodes shipped_world).
          node_state n = ''locked'' \<or> Some (level_id n) = current_player_node_id shipped_world"
    by code_simp
  then show ?thesis using map_of_SomeD[OF assms] by blast
qed

lemma shipped_click_v1:
  assumes "all_level_nodes w = all_level_nodes shipped_world"
    and "current_player_node_id w = current_player_node_id shipped_world"
  shows "all_level_nodes (on_click_v1 k w) = all_level_nodes shipped_world \<and>
         current_player_node_id (on_click_v1 k w) = current_player_node_id shipped_world"
proof (cases "map_of (all_level_nodes w) k")
  case None
  then show ?thesis using assms by (simp add: on_click_v1_def)
next
  case (Some n)
  then have "node_state n = ''locked'' \<or> Some (level_id n) = current_player_node_id w"
    using shipped_nodes_locked_or_current[of k n] assms by simp
  then show ?thesis
    using Some assms by (auto simp: on_click_v1_def handle_node_click_v1_def)
qed

lemma shipped_click_v2:
  assumes "all_level_nodes w = all_level_nodes shipped_world"
    and "current_player_node_id w = current_player_node_id shipped_world"
  shows "\<exists>w'. on_click_v2 k w = Some w' \<and>
              all_level_nodes w' = all_level_nodes shipped_world \<and>
              current_player_node_id w' = current_player_node_id shipped_world"
proof (cases "map_of (all_level_nodes w) k")
  case None
  then show ?thesis using assms by (simp add: on_click_v2_def)
next
  case (Some n)
  then have "node_state n = ''locked'' \<or> Some (level_id n) = current_player_node_id w"
    using shipped_nodes_locked_or_current[of k n] assms by simp
  then show ?thesis
    using Some assms by (auto simp: on_click_v2_def handle_node_click_v2_def)
qed

lemma shipped_map_stuck_v1:
  assumes "all_level_nodes w = all_level_nodes shipped_world"
    and "current_player_node_id w = current_player_node_id shipped_world"
  shows "all_level_nodes (clicks_v1 ks w) = all_level_nodes shipped_world \<and>
         current_player_node_id (clicks_v1 ks w) = current_player_node_id shipped_world"
  using assms
proof (induction ks arbitrary: w)
  case Nil
  then show ?case by simp
next
  case (Cons k ks)
  from shipped_click_v1[OF Cons.prems, of k] show ?case
    by (simp add: Cons.IH)
qed

lemma shipped_map_stuck_v2:
  assumes "all_level_nodes w = all_level_nodes shipped_world"
    and "current_player_node_id w = current_player_node_id shipped_world"
  shows "\<exists>w'. clicks_v2 ks w = Some w' \<and>
              all_level_nodes w' = all_level_nodes shipped_world \<and>
              current_player_node_id w' = current_player_node_id shipped_world"
  using assms
proof (induction ks arbitrary: w)
  case Nil
  then show ?case by simp
next
  case (Cons k ks)
  from shipped_click_v2[OF Cons.prems, of k] obtain w1 where
    w1: "on_click_v2 k w = Some w1" "all_level_nodes w1 = all_level_nodes shipped_world"
        "current_player_node_id w1 = current_player_node_id shipped_world"
    by blast
  from Cons.IH[OF w1(2,3)] show ?case by (simp add: w1(1))
qed

lemma shipped_map_stuck:
  "all_level_nodes (clicks_v1 ks shipped_world) = all_level_nodes shipped_world \<and>
   current_player_node_id (clicks_v1 ks shipped_world) = Some ''1-1'' \<and>
   setup_level_nodes_and_paths_v2 levels_data empty_world = Some shipped_world \<and>
   (\<exists>w'. clicks_v2 ks shipped_world = Some w' \<and>
          all_level_nodes w' = all_level_nodes shipped_world \<and>
          current_player_node_id w' = Some ''1-1'')"
proof -
  have c: "current_player_node_id shipped_world = Some ''1-1''" by code_simp
  have s: "setup_level_nodes_and_paths_v2 levels_data empty_world = Some shipped_world"
    by code_simp
  show ?thesis
    using shipped_map_stuck_v1[of shipped_world ks] shipped_map_stuck_v2[of shipped_world ks] s
    by (simp add: c)
qed

section \<open>Claims\<close>

text \<open>
  C1. For a configuration with at least one entry, after initialisation and after any
  further sequence of clicks (so after every completed move) exactly one node carries
  the current flag, and it is the node the pointer names: the ids of the flagged nodes
  form the one-element list holding the pointer. The same holds right after
  \<^verbatim>\<open>set_current_player_node\<close> on any well-formed world whose target node exists. Both
  variants; the second never raises on the way.
\<close>

theorem single_current_node:
  assumes "cfg \<noteq> []"
  shows "(\<exists>c. current_player_node_id (clicks_v1 ks (setup_level_nodes_and_paths_v1 cfg empty_world)) = Some c \<and>
              current_nodes (clicks_v1 ks (setup_level_nodes_and_paths_v1 cfg empty_world)) = [c]) \<and>
         (\<exists>w0 w c. setup_level_nodes_and_paths_v2 cfg empty_world = Some w0 \<and>
                    clicks_v2 ks w0 = Some w \<and>
                    current_player_node_id w = Some c \<and> current_nodes w = [c]) \<and>
         (\<forall>w x. wf_world w \<and> map_of (all_level_nodes w) x \<noteq> None \<longrightarrow>
            current_player_node_id (set_current_player_node_v1 x w) = Some x \<and>
            current_nodes (set_current_player_node_v1 x w) = [x] \<and>
            (\<exists>w'. set_current_player_node_v2 x w = Some w' \<and>
                   current_player_node_id w' = Some x \<and> current_nodes w' = [x]))"
proof -
  have g1: "good (clicks_v1 ks (setup_level_nodes_and_paths_v1 cfg empty_world))"
    by (rule clicks_v1_good, rule setup_v1_good[OF assms])
  have one: "\<exists>c. current_player_node_id w = Some c \<and> current_nodes w = [c]" if "good w" for w
  proof -
    from that obtain c where c: "current_player_node_id w = Some c" by (auto simp: good_def)
    moreover have "current_nodes w = [c]"
      using that c by (intro single_current) (simp_all add: good_def)
    ultimately show ?thesis by blast
  qed
  from setup_v2_good[OF assms] obtain w0 where
    w0: "setup_level_nodes_and_paths_v2 cfg empty_world = Some w0" "good w0" by blast
  from clicks_v2_good[OF w0(2), of ks] obtain w where
    w: "clicks_v2 ks w0 = Some w" "good w" by blast
  have v2: "\<exists>w0 w c. setup_level_nodes_and_paths_v2 cfg empty_world = Some w0 \<and>
                    clicks_v2 ks w0 = Some w \<and>
                    current_player_node_id w = Some c \<and> current_nodes w = [c]"
    using one[OF w(2)] w0(1) w(1) by blast
  have mv: "\<forall>w x. wf_world w \<and> map_of (all_level_nodes w) x \<noteq> None \<longrightarrow>
            current_player_node_id (set_current_player_node_v1 x w) = Some x \<and>
            current_nodes (set_current_player_node_v1 x w) = [x] \<and>
            (\<exists>w'. set_current_player_node_v2 x w = Some w' \<and>
                   current_player_node_id w' = Some x \<and> current_nodes w' = [x])"
    using single_current_after_move_v1 single_current_after_move_v2
    by (simp add: set_current_player_node_v1_fields)
  show ?thesis using one[OF g1] v2 mv by (intro conjI)
qed

theorem single_current_node_witness:
  "scenario_fork \<noteq> [] \<and>
   current_player_node_id (clicks_v1 [''B''] (setup_level_nodes_and_paths_v1 scenario_fork empty_world))
     = Some ''B'' \<and>
   current_nodes (clicks_v1 [''B''] (setup_level_nodes_and_paths_v1 scenario_fork empty_world))
     = [''B''] \<and>
   (\<exists>w0 w. setup_level_nodes_and_paths_v2 scenario_fork empty_world = Some w0 \<and>
           clicks_v2 [''B''] w0 = Some w \<and>
           current_player_node_id w = Some ''B'' \<and> current_nodes w = [''B'']) \<and>
   wf_world fork_world \<and> map_of (all_level_nodes fork_world) ''B'' \<noteq> None \<and>
   current_nodes (set_current_player_node_v1 ''B'' fork_world) = [''B''] \<and>
   (\<exists>w'. set_current_player_node_v2 ''B'' fork_world = Some w' \<and>
          current_player_node_id w' = Some ''B'' \<and> current_nodes w' = [''B''])"
proof -
  have ne: "scenario_fork \<noteq> []" by code_simp
  have c1: "current_player_node_id
              (clicks_v1 [''B''] (setup_level_nodes_and_paths_v1 scenario_fork empty_world))
            = Some ''B''" by code_simp
  have s2: "setup_level_nodes_and_paths_v2 scenario_fork empty_world = Some fork_world"
    by code_simp
  have c2: "map_option current_player_node_id (clicks_v2 [''B''] fork_world) = Some (Some ''B'')"
    by code_simp
  have wf: "wf_world fork_world" by code_simp
  have x: "map_of (all_level_nodes fork_world) ''B'' \<noteq> None" by code_simp
  have wx: "wf_world fork_world \<and> map_of (all_level_nodes fork_world) ''B'' \<noteq> None"
    using wf x by simp
  note T = single_current_node[OF ne, of "[''B'']"]
  from T[THEN conjunct1] c1
  have a: "current_nodes (clicks_v1 [''B''] (setup_level_nodes_and_paths_v1 scenario_fork empty_world))
             = [''B'']" by auto
  from T[THEN conjunct2, THEN conjunct1] s2 c2
  have b: "\<exists>w0 w. setup_level_nodes_and_paths_v2 scenario_fork empty_world = Some w0 \<and>
           clicks_v2 [''B''] w0 = Some w \<and>
           current_player_node_id w = Some ''B'' \<and> current_nodes w = [''B'']" by auto
  note M = T[THEN conjunct2, THEN conjunct2, rule_format, OF wx]
  show ?thesis
    by (intro conjI) (fact ne c1 a b wf x M[THEN conjunct2, THEN conjunct1]
          M[THEN conjunct2, THEN conjunct2])+
qed

text \<open>
  C2. Starting from the initialised graph, take any sequence of clicks and then any
  further sequence of clicks: every node's state after the second sequence is the one it
  had after the first or a later one in the order locked, unlocked, completed. None of
  the transitions completed to unlocked, completed to locked, unlocked to locked occurs.
  In the second variant no click of such a run raises.
\<close>

theorem states_never_regress:
  "(\<forall>k s. state_at (clicks_v1 ks1 (setup_level_nodes_and_paths_v1 cfg empty_world)) k = Some s \<longrightarrow>
      (\<exists>s'. state_at (clicks_v1 ks2 (clicks_v1 ks1 (setup_level_nodes_and_paths_v1 cfg empty_world))) k
               = Some s' \<and>
             advances s s' \<and> \<not> regresses s s')) \<and>
   (\<exists>w0 w1 w2.
      setup_level_nodes_and_paths_v2 cfg empty_world = Some w0 \<and>
      clicks_v2 ks1 w0 = Some w1 \<and> clicks_v2 ks2 w1 = Some w2 \<and>
      (\<forall>k s. state_at w1 k = Some s \<longrightarrow>
         (\<exists>s'. state_at w2 k = Some s' \<and> advances s s' \<and> \<not> regresses s s')))"
proof -
  have imp: "\<forall>k s. state_at w k = Some s \<longrightarrow>
               (\<exists>s'. state_at w' k = Some s' \<and> advances s s' \<and> \<not> regresses s s')"
    if "le_states w w'" for w w'
    using that unfolding le_states_def by (meson advances_not_regresses)
  from setup_v2_wf obtain w0 where
    w0: "setup_level_nodes_and_paths_v2 cfg empty_world = Some w0" "wf_world w0" by blast
  from clicks_v2_wf[OF w0(2), of ks1] obtain w1 where
    w1: "clicks_v2 ks1 w0 = Some w1" "wf_world w1" by blast
  from clicks_v2_wf[OF w1(2), of ks2] obtain w2 where
    w2: "clicks_v2 ks2 w1 = Some w2" "le_states w1 w2" by blast
  show ?thesis
    using imp[OF le_states_clicks_v1] imp[OF w2(2)] w0(1) w1(1) w2(1) by blast
qed

theorem states_never_regress_witness:
  "state_at (clicks_v1 [] (setup_level_nodes_and_paths_v1 scenario_fork empty_world)) ''A''
     = Some ''unlocked'' \<and>
   state_at (clicks_v1 [''B''] (clicks_v1 [] (setup_level_nodes_and_paths_v1 scenario_fork empty_world)))
     ''A'' = Some ''completed'' \<and>
   advances ''unlocked'' ''completed'' \<and> \<not> regresses ''unlocked'' ''completed'' \<and>
   (\<exists>w0 w1 w2.
      setup_level_nodes_and_paths_v2 scenario_fork empty_world = Some w0 \<and>
      clicks_v2 [] w0 = Some w1 \<and> clicks_v2 [''B''] w1 = Some w2 \<and>
      state_at w1 ''C'' = Some ''locked'' \<and> state_at w2 ''C'' = Some ''unlocked'' \<and>
      advances ''locked'' ''unlocked'' \<and> \<not> regresses ''locked'' ''unlocked'')"
proof -
  have a: "state_at (clicks_v1 [] (setup_level_nodes_and_paths_v1 scenario_fork empty_world)) ''A''
             = Some ''unlocked''" by code_simp
  have b: "state_at (clicks_v1 [''B'']
              (clicks_v1 [] (setup_level_nodes_and_paths_v1 scenario_fork empty_world))) ''A''
             = Some ''completed''" by code_simp
  have s2: "setup_level_nodes_and_paths_v2 scenario_fork empty_world = Some fork_world"
    by code_simp
  have c: "state_at fork_world ''C'' = Some ''locked''" by code_simp
  have d: "map_option (\<lambda>w. state_at w ''C'') (clicks_v2 [''B''] fork_world)
             = Some (Some ''unlocked'')" by code_simp
  note T = states_never_regress[of "[]" scenario_fork "[''B'']"]
  from T[THEN conjunct1, rule_format, OF a] b
  have v1: "advances ''unlocked'' ''completed'' \<and> \<not> regresses ''unlocked'' ''completed''"
    by simp
  from T[THEN conjunct2] obtain w0 w1 w2 where
    w: "setup_level_nodes_and_paths_v2 scenario_fork empty_world = Some w0"
       "clicks_v2 [] w0 = Some w1" "clicks_v2 [''B''] w1 = Some w2"
    and adv: "\<forall>k s. state_at w1 k = Some s \<longrightarrow>
         (\<exists>s'. state_at w2 k = Some s' \<and> advances s s' \<and> \<not> regresses s s')"
    by blast
  have w0: "w0 = fork_world" using w(1) s2 by simp
  have w1: "w1 = fork_world" using w(2) w0 by simp
  have c1: "state_at w1 ''C'' = Some ''locked''" using c w1 by simp
  have c2: "state_at w2 ''C'' = Some ''unlocked''" using d w(3) w1 by simp
  from adv[rule_format, OF c1] c2
  have "advances ''locked'' ''unlocked'' \<and> \<not> regresses ''locked'' ''unlocked''" by simp
  with w c1 c2 have v2: "\<exists>w0 w1 w2.
      setup_level_nodes_and_paths_v2 scenario_fork empty_world = Some w0 \<and>
      clicks_v2 [] w0 = Some w1 \<and> clicks_v2 [''B''] w1 = Some w2 \<and>
      state_at w1 ''C'' = Some ''locked'' \<and> state_at w2 ''C'' = Some ''unlocked'' \<and>
      advances ''locked'' ''unlocked'' \<and> \<not> regresses ''locked'' ''unlocked''"
    by blast
  show ?thesis using a b v1 v2 by blast
qed




text \<open>
  C4. When the pointer names an existing node P (with a non-empty id, as the
  configuration format requires) whose state is unlocked or completed, P is completed
  after \<^verbatim>\<open>set_current_player_node(X)\<close>, for every X. In the second variant this needs
  X to exist and the world to be well formed, and then the call does not raise.
\<close>

theorem vacated_node_completed:
  assumes "current_player_node_id w = Some p" and "p \<noteq> []"
    and "map_of (all_level_nodes w) p = Some pn"
    and "node_state pn = ''unlocked'' \<or> node_state pn = ''completed''"
  shows "(\<exists>pn'. map_of (all_level_nodes (set_current_player_node_v1 x w)) p = Some pn' \<and>
                 node_state pn' = ''completed'') \<and>
         (wf_world w \<and> map_of (all_level_nodes w) x \<noteq> None \<longrightarrow>
            (\<exists>w' pn'. set_current_player_node_v2 x w = Some w' \<and>
                       map_of (all_level_nodes w') p = Some pn' \<and>
                       node_state pn' = ''completed''))"
proof -
  have ms: "moved_state w x p (node_state pn) = ''completed''"
    using assms by (auto simp: moved_state_def Let_def split: option.splits)
  have v1: "\<exists>pn'. node_at (set_current_player_node_v1 x w) p = Some pn' \<and>
                  node_state pn' = ''completed''"
    using assms(3) ms by (simp add: node_at_set_current_player_node_v1)
  moreover have "\<exists>w' pn'. set_current_player_node_v2 x w = Some w' \<and>
                   node_at w' p = Some pn' \<and> node_state pn' = ''completed''"
    if "wf_world w" "node_at w x \<noteq> None"
  proof -
    from scp_v2_eq[OF that] obtain ps where
      "set_current_player_node_v2 x w = Some ((set_current_player_node_v1 x w)\<lparr>paths_entities := ps\<rparr>)"
      by blast
    then show ?thesis using v1 by auto
  qed
  ultimately show ?thesis by blast
qed

theorem vacated_node_completed_witness:
  "current_player_node_id fork_world = Some ''A'' \<and> ''A'' \<noteq> [] \<and>
   map_of (all_level_nodes fork_world) ''A'' = Some fork_node_A \<and>
   node_state fork_node_A = ''unlocked'' \<and>
   wf_world fork_world \<and> map_of (all_level_nodes fork_world) ''B'' \<noteq> None \<and>
   (\<exists>pn'. map_of (all_level_nodes (set_current_player_node_v1 ''B'' fork_world)) ''A'' = Some pn' \<and>
           node_state pn' = ''completed'') \<and>
   (\<exists>w' pn'. set_current_player_node_v2 ''B'' fork_world = Some w' \<and>
              map_of (all_level_nodes w') ''A'' = Some pn' \<and> node_state pn' = ''completed'')"
proof -
  have h1: "current_player_node_id fork_world = Some ''A''" by code_simp
  have h2: "''A'' \<noteq> []" by simp
  have h3: "map_of (all_level_nodes fork_world) ''A'' = Some fork_node_A" by code_simp
  have h4: "node_state fork_node_A = ''unlocked''" by code_simp
  have h4': "node_state fork_node_A = ''unlocked'' \<or> node_state fork_node_A = ''completed''"
    using h4 by simp
  have wf: "wf_world fork_world" by code_simp
  have x: "map_of (all_level_nodes fork_world) ''B'' \<noteq> None" by code_simp
  note T = vacated_node_completed[OF h1 h2 h3 h4', of "''B''"]
  have wx: "wf_world fork_world \<and> map_of (all_level_nodes fork_world) ''B'' \<noteq> None"
    using wf x by simp
  show ?thesis
    by (intro conjI) (fact h1 h2 h3 h4 wf x T[THEN conjunct1] T[THEN conjunct2, rule_format, OF wx])+
qed




text \<open>
  C6. A click on a locked node, repeated any number of times, changes no node, no path
  and not the current-node pointer: the world is the one before, with one shake request
  per click appended and no unlock (pop) request. This holds in every world, reachable
  or not, and in both variants.
\<close>

theorem locked_click_is_rejected:
  assumes "map_of (all_level_nodes w) k = Some n" and "node_state n = ''locked''"
  shows "handle_node_click_v1 n w = w\<lparr>events := events w @ [Shake (level_id n)]\<rparr> \<and>
         handle_node_click_v2 n w = Some (w\<lparr>events := events w @ [Shake (level_id n)]\<rparr>) \<and>
         clicks_v1 (replicate m k) w =
           w\<lparr>events := events w @ replicate m (Shake (level_id n))\<rparr> \<and>
         clicks_v2 (replicate m k) w =
           Some (w\<lparr>events := events w @ replicate m (Shake (level_id n))\<rparr>)"
  using assms
  by (simp add: clicks_v1_locked clicks_v2_locked handle_node_click_v1_def handle_node_click_v2_def)

theorem locked_click_is_rejected_witness:
  "map_of (all_level_nodes abc_world) ''B'' = Some abc_node_B \<and>
   node_state abc_node_B = ''locked'' \<and>
   handle_node_click_v1 abc_node_B abc_world = abc_world\<lparr>events := [Shake ''B'']\<rparr> \<and>
   handle_node_click_v2 abc_node_B abc_world = Some (abc_world\<lparr>events := [Shake ''B'']\<rparr>) \<and>
   clicks_v1 (replicate 3 ''B'') abc_world =
     abc_world\<lparr>events := [Shake ''B'', Shake ''B'', Shake ''B'']\<rparr> \<and>
   clicks_v2 (replicate 3 ''B'') abc_world =
     Some (abc_world\<lparr>events := [Shake ''B'', Shake ''B'', Shake ''B'']\<rparr>)"
proof -
  have h1: "map_of (all_level_nodes abc_world) ''B'' = Some abc_node_B" by code_simp
  have h2: "node_state abc_node_B = ''locked''" by code_simp
  have e: "events abc_world = []" by code_simp
  have l: "level_id abc_node_B = ''B''" by code_simp
  have r: "replicate 3 (Shake ''B'') = [Shake ''B'', Shake ''B'', Shake ''B'']" by code_simp
  show ?thesis
    using locked_click_is_rejected[OF h1 h2, of 3] h1 h2 by (simp only: e l r append_Nil simp_thms)
qed

text \<open>
  C7. As stated the claim fails: in the graph A (unlocked, current), B (locked, listed
  in A's unlocks), C (locked), B is locked when it is clicked, and both handlers reject
  a click on a locked node. What holds: the click on B leaves A unlocked, B locked, C
  locked and the pointer on A; its only effect is one shake request for B.
\<close>

theorem scenario_click_rejected:
  "setup_level_nodes_and_paths_v1 scenario_abc empty_world = abc_world \<and>
   setup_level_nodes_and_paths_v2 scenario_abc empty_world = Some abc_world \<and>
   on_click_v1 ''B'' abc_world = abc_world\<lparr>events := [Shake ''B'']\<rparr> \<and>
   on_click_v2 ''B'' abc_world = Some (abc_world\<lparr>events := [Shake ''B'']\<rparr>) \<and>
   state_at (abc_world\<lparr>events := [Shake ''B'']\<rparr>) ''A'' = Some ''unlocked'' \<and>
   state_at (abc_world\<lparr>events := [Shake ''B'']\<rparr>) ''B'' = Some ''locked'' \<and>
   state_at (abc_world\<lparr>events := [Shake ''B'']\<rparr>) ''C'' = Some ''locked'' \<and>
   current_player_node_id (abc_world\<lparr>events := [Shake ''B'']\<rparr>) = Some ''A''"
  by code_simp

theorem scenario_click_counterexample:
  "setup_level_nodes_and_paths_v1 scenario_abc empty_world = abc_world \<and>
   setup_level_nodes_and_paths_v2 scenario_abc empty_world = Some abc_world \<and>
   current_player_node_id abc_world = Some ''A'' \<and>
   map_option unlocks (map_of (all_level_nodes abc_world) ''A'') = Some [''B''] \<and>
   state_at abc_world ''A'' = Some ''unlocked'' \<and>
   state_at abc_world ''B'' = Some ''locked'' \<and>
   state_at abc_world ''C'' = Some ''locked'' \<and>
   state_at (on_click_v1 ''B'' abc_world) ''A'' = Some ''unlocked'' \<and>
   state_at (on_click_v1 ''B'' abc_world) ''B'' = Some ''locked'' \<and>
   current_player_node_id (on_click_v1 ''B'' abc_world) = Some ''A'' \<and>
   state_after (on_click_v2 ''B'' abc_world) ''A'' = Some ''unlocked'' \<and>
   state_after (on_click_v2 ''B'' abc_world) ''B'' = Some ''locked'' \<and>
   map_option current_player_node_id (on_click_v2 ''B'' abc_world) = Some (Some ''A'')"
  by code_simp

text \<open>
  C8. If no configured entry has the initial state unlocked, then after
  \<^verbatim>\<open>setup_level_nodes_and_paths\<close> the pointer is the first entry's id and the node
  stored under that id is unlocked and flagged current. In \<^verbatim>\<open>src/1.py\<close> this needs the
  id to be non-empty, as the configuration format requires. For a single entry without
  unlocks no path is created.
\<close>

theorem fallback_start_node:
  assumes "\<forall>d \<in> set (d0 # ds). cfg_initial_state d \<noteq> ''unlocked''"
  shows "(cfg_id d0 \<noteq> [] \<longrightarrow>
            current_player_node_id (setup_level_nodes_and_paths_v1 (d0 # ds) empty_world)
              = Some (cfg_id d0) \<and>
            (\<exists>n. map_of (all_level_nodes (setup_level_nodes_and_paths_v1 (d0 # ds) empty_world))
                    (cfg_id d0) = Some n \<and>
                  node_state n = ''unlocked'' \<and> is_current_game_node n)) \<and>
         (\<exists>w n. setup_level_nodes_and_paths_v2 (d0 # ds) empty_world = Some w \<and>
                 current_player_node_id w = Some (cfg_id d0) \<and>
                 map_of (all_level_nodes w) (cfg_id d0) = Some n \<and>
                 node_state n = ''unlocked'' \<and> is_current_game_node n) \<and>
         (ds = [] \<and> cfg_unlocks d0 = [] \<longrightarrow>
            paths_entities (setup_level_nodes_and_paths_v1 (d0 # ds) empty_world) = [] \<and>
            (\<exists>w. setup_level_nodes_and_paths_v2 (d0 # ds) empty_world = Some w \<and>
                  paths_entities w = []))"
  using setup_v1_fallback[OF assms] setup_v2_fallback[OF assms]
    setup_v1_one_node[of d0] setup_v2_one_node[of d0]
  by blast

theorem fallback_start_node_witness:
  "cfg_initial_state (hd all_locked) \<noteq> ''unlocked'' \<and> tl all_locked = [] \<and>
   cfg_id (hd all_locked) = ''A'' \<and> cfg_unlocks (hd all_locked) = [] \<and>
   current_player_node_id (setup_level_nodes_and_paths_v1 all_locked empty_world) = Some ''A'' \<and>
   state_at (setup_level_nodes_and_paths_v1 all_locked empty_world) ''A'' = Some ''unlocked'' \<and>
   paths_entities (setup_level_nodes_and_paths_v1 all_locked empty_world) = [] \<and>
   (\<exists>w. setup_level_nodes_and_paths_v2 all_locked empty_world = Some w \<and>
         current_player_node_id w = Some ''A'' \<and> state_at w ''A'' = Some ''unlocked'' \<and>
         paths_entities w = [])"
proof -
  define d0 where "d0 = hd all_locked"
  have al: "all_locked = d0 # []" unfolding d0_def by code_simp
  have h: "\<forall>d \<in> set (d0 # []). cfg_initial_state d \<noteq> ''unlocked''"
    unfolding d0_def by code_simp
  have i: "cfg_id d0 = ''A''" unfolding d0_def by code_simp
  have u: "cfg_unlocks d0 = []" unfolding d0_def by code_simp
  have t: "tl all_locked = []" by code_simp
  have ne: "cfg_id d0 \<noteq> []" using i by simp
  have s: "tl all_locked = [] \<and> cfg_unlocks d0 = []" using t u by simp
  have s': "[] = ([]::level_data list) \<and> cfg_unlocks d0 = []" using u by simp
  note T = fallback_start_node[OF h]
  note T1 = T[THEN conjunct1, rule_format, OF ne, unfolded i, folded al]
  have a: "current_player_node_id (setup_level_nodes_and_paths_v1 all_locked empty_world) = Some ''A''"
    by (rule T1[THEN conjunct1])
  have b: "state_at (setup_level_nodes_and_paths_v1 all_locked empty_world) ''A'' = Some ''unlocked''"
    using T1[THEN conjunct2] by (auto simp: state_at_def)
  note T3 = T[THEN conjunct2, THEN conjunct2, rule_format, OF s', folded al]
  have c: "paths_entities (setup_level_nodes_and_paths_v1 all_locked empty_world) = []"
    by (rule T3[THEN conjunct1])
  from T[THEN conjunct2, THEN conjunct1, unfolded i, folded al] obtain w n where
    w: "setup_level_nodes_and_paths_v2 all_locked empty_world = Some w"
       "current_player_node_id w = Some ''A''"
       "map_of (all_level_nodes w) ''A'' = Some n" "node_state n = ''unlocked''"
    by blast
  from T3[THEN conjunct2] w(1) have "paths_entities w = []" by auto
  moreover have "state_at w ''A'' = Some ''unlocked''" using w(3,4) by (simp add: state_at_def)
  ultimately have d: "\<exists>w. setup_level_nodes_and_paths_v2 all_locked empty_world = Some w \<and>
         current_player_node_id w = Some ''A'' \<and> state_at w ''A'' = Some ''unlocked'' \<and>
         paths_entities w = []"
    using w(1,2) by blast
  have h': "cfg_initial_state (hd all_locked) \<noteq> ''unlocked''" by code_simp
  have i': "cfg_id (hd all_locked) = ''A''" by code_simp
  have u': "cfg_unlocks (hd all_locked) = []" by code_simp
  show ?thesis
    by (intro conjI) (fact h' t i' u' a b c d)+
qed

text \<open>
  C9. The two click handlers differ. In the world both variants build from two unlocked
  nodes without paths, with A current, a click on B (unlocked, not current, not adjacent
  to A) moves the player in \<^verbatim>\<open>src/1.py\<close> and is rejected with a shake in
  \<^verbatim>\<open>src/3dworld5.13.25.py\<close>.
\<close>

theorem movement_policies_differ:
  "setup_level_nodes_and_paths_v1 two_islands empty_world = islands_world \<and>
   setup_level_nodes_and_paths_v2 two_islands empty_world = Some islands_world \<and>
   map_of (all_level_nodes islands_world) ''B'' = Some islands_node_B \<and>
   node_state islands_node_B = ''unlocked'' \<and>
   current_player_node_id islands_world = Some ''A'' \<and>
   ''B'' \<notin> set (get_adjacent_nodes (current_player_node_id islands_world)
                  (map fst (paths_entities islands_world))) \<and>
   handle_node_click_v1 islands_node_B islands_world =
     (set_current_player_node_v1 ''B'' islands_world)\<lparr>events := [Moved ''Level B'']\<rparr> \<and>
   current_player_node_id (handle_node_click_v1 islands_node_B islands_world) = Some ''B'' \<and>
   handle_node_click_v2 islands_node_B islands_world =
     Some (islands_world\<lparr>events := [Shake ''B'']\<rparr>) \<and>
   handle_node_click_v2 islands_node_B islands_world \<noteq>
     Some (handle_node_click_v1 islands_node_B islands_world)"
  by code_simp

text \<open>
  C10. In \<^verbatim>\<open>src/1.py\<close>, in every world reached by clicks from a configuration whose
  initial states are among locked, unlocked, completed, a stored node that is not locked
  and not current is unlocked or completed, so a click on it is a move: the final
  rejection is never taken. The move happens in every world in which the node is not
  current, whatever \<^verbatim>\<open>can_move\<close> computes; with no current node \<^verbatim>\<open>can_move\<close> is false
  and the click still moves.
\<close>

theorem final_rejection_unreachable:
  assumes "valid_config cfg"
    and "map_of (all_level_nodes (clicks_v1 ks (setup_level_nodes_and_paths_v1 cfg empty_world))) k =
           Some n"
    and "node_state n \<noteq> ''locked''"
    and "current_player_node_id (clicks_v1 ks (setup_level_nodes_and_paths_v1 cfg empty_world)) \<noteq>
           Some (level_id n)"
  shows "(node_state n = ''unlocked'' \<or> node_state n = ''completed'') \<and>
         handle_node_click_v1 n (clicks_v1 ks (setup_level_nodes_and_paths_v1 cfg empty_world)) =
           (set_current_player_node_v1 (level_id n)
              (clicks_v1 ks (setup_level_nodes_and_paths_v1 cfg empty_world)))
             \<lparr>events :=
                events (set_current_player_node_v1 (level_id n)
                          (clicks_v1 ks (setup_level_nodes_and_paths_v1 cfg empty_world)))
                  @ [Moved (level_name n)]\<rparr> \<and>
         (\<forall>w'. current_player_node_id w' \<noteq> Some (level_id n) \<longrightarrow>
            handle_node_click_v1 n w' =
              (set_current_player_node_v1 (level_id n) w')
                \<lparr>events := events (set_current_player_node_v1 (level_id n) w')
                              @ [Moved (level_name n)]\<rparr>) \<and>
         (\<forall>w'. current_player_node_id w' = None \<longrightarrow> \<not> can_move_v1 n w')"
proof -
  let ?w = "clicks_v1 ks (setup_level_nodes_and_paths_v1 cfg empty_world)"
  have "states_valid ?w"
    by (rule states_valid_clicks_v1, rule states_valid_setup_v1[OF assms(1)])
  then have "valid_state (node_state n)"
    using assms(2) by (rule states_validD)
  then have st: "node_state n = ''unlocked'' \<or> node_state n = ''completed''"
    using assms(3) by (auto simp: valid_state_def)
  have "handle_node_click_v1 n ?w =
          (set_current_player_node_v1 (level_id n) ?w)
            \<lparr>events := events (set_current_player_node_v1 (level_id n) ?w)
                          @ [Moved (level_name n)]\<rparr>"
    using st assms(4) by (rule handle_v1_moves)
  moreover have "\<forall>w'. current_player_node_id w' \<noteq> Some (level_id n) \<longrightarrow>
            handle_node_click_v1 n w' =
              (set_current_player_node_v1 (level_id n) w')
                \<lparr>events := events (set_current_player_node_v1 (level_id n) w')
                              @ [Moved (level_name n)]\<rparr>"
    using handle_v1_moves[OF st] by blast
  moreover have "\<forall>w'. current_player_node_id w' = None \<longrightarrow> \<not> can_move_v1 n w'"
    by (simp add: can_move_v1_def)
  ultimately show ?thesis using st by blast
qed

theorem final_rejection_unreachable_witness:
  "valid_config two_islands \<and>
   map_of (all_level_nodes (clicks_v1 [] (setup_level_nodes_and_paths_v1 two_islands empty_world))) ''B''
     = Some islands_node_B \<and>
   node_state islands_node_B \<noteq> ''locked'' \<and>
   current_player_node_id (clicks_v1 [] (setup_level_nodes_and_paths_v1 two_islands empty_world))
     \<noteq> Some (level_id islands_node_B) \<and>
   node_state islands_node_B = ''unlocked'' \<and>
   handle_node_click_v1 islands_node_B
       (clicks_v1 [] (setup_level_nodes_and_paths_v1 two_islands empty_world)) =
     (set_current_player_node_v1 ''B'' islands_world)
       \<lparr>events := events (set_current_player_node_v1 ''B'' islands_world) @ [Moved ''Level B'']\<rparr> \<and>
   \<not> can_move_v1 islands_node_B (islands_world\<lparr>current_player_node_id := None\<rparr>) \<and>
   handle_node_click_v1 islands_node_B (islands_world\<lparr>current_player_node_id := None\<rparr>) =
     (set_current_player_node_v1 ''B'' (islands_world\<lparr>current_player_node_id := None\<rparr>))
       \<lparr>events := events (set_current_player_node_v1 ''B''
                           (islands_world\<lparr>current_player_node_id := None\<rparr>))
                   @ [Moved ''Level B'']\<rparr>"
proof -
  have h1: "valid_config two_islands" by code_simp
  have h2: "map_of (all_level_nodes (clicks_v1 [] (setup_level_nodes_and_paths_v1 two_islands empty_world)))
              ''B'' = Some islands_node_B" by code_simp
  have h3: "node_state islands_node_B \<noteq> ''locked''" by code_simp
  have h4: "current_player_node_id (clicks_v1 [] (setup_level_nodes_and_paths_v1 two_islands empty_world))
              \<noteq> Some (level_id islands_node_B)" by code_simp
  have e1: "clicks_v1 [] (setup_level_nodes_and_paths_v1 two_islands empty_world) = islands_world"
    by (simp add: islands_world_def)
  have e2: "level_id islands_node_B = ''B''" by code_simp
  have e3: "level_name islands_node_B = ''Level B''" by code_simp
  have e4: "node_state islands_node_B = ''unlocked''" by code_simp
  have n1: "current_player_node_id (islands_world\<lparr>current_player_node_id := None\<rparr>)
              \<noteq> Some (level_id islands_node_B)" by simp
  have n2: "current_player_node_id (islands_world\<lparr>current_player_node_id := None\<rparr>) = None" by simp
  note T = final_rejection_unreachable[OF h1 h2 h3 h4, unfolded e1 e2 e3]
  have m: "handle_node_click_v1 islands_node_B (islands_world\<lparr>current_player_node_id := None\<rparr>) =
     (set_current_player_node_v1 ''B'' (islands_world\<lparr>current_player_node_id := None\<rparr>))
       \<lparr>events := events (set_current_player_node_v1 ''B''
                           (islands_world\<lparr>current_player_node_id := None\<rparr>))
                   @ [Moved ''Level B'']\<rparr>"
    by (rule T[THEN conjunct2, THEN conjunct2, THEN conjunct1, rule_format]) simp
  have c: "\<not> can_move_v1 islands_node_B (islands_world\<lparr>current_player_node_id := None\<rparr>)"
    by (rule T[THEN conjunct2, THEN conjunct2, THEN conjunct2, rule_format]) simp
  have mv: "handle_node_click_v1 islands_node_B
       (clicks_v1 [] (setup_level_nodes_and_paths_v1 two_islands empty_world)) =
     (set_current_player_node_v1 ''B'' islands_world)
       \<lparr>events := events (set_current_player_node_v1 ''B'' islands_world) @ [Moved ''Level B'']\<rparr>"
    unfolding e1 by (rule T[THEN conjunct2, THEN conjunct1])
  show ?thesis
    by (intro conjI) (fact h1 h2 h3 h4 e4 mv c m)+
qed

end
